theory Spec2Isabelle
  imports Main "HOL-Library.List_Lexorder" "HOL-Library.Char_ord"
begin

section \<open>The example dataset of the DNA fibre analysis package (dfa/dataset.py)\<close>

text \<open>
  The module holds one class, \<open>Dataset\<close>. Its constructor decompresses a zip archive,
  reads \<open>summary.csv\<close> and derives two indices; \<open>next_batch\<close> is a generator function
  reading batches of keys at a cursor; \<open>_save\<close> writes the files of a dataset into a new
  archive. Python integers are \<open>int\<close>, tuples of index labels are lists of labels,
  exceptions are values of \<open>error\<close>, and the object's attributes are the fields of a
  record that every method takes and gives back.
\<close>

subsection \<open>Errors\<close>

datatype error =
    FileNotFoundError
  | IsADirectoryError
  | NotADirectoryError
  | BadZipFile
  | ParserError
  | KeyError
  | ValueError
  | IndexError

subsection \<open>Slicing\<close>

text \<open>
  \<open>xs[begin:end]\<close> of Python (and of a pandas index, which slices its array of
  labels): a negative bound counts from the end, and both bounds are then clamped to
  \<open>0 .. len(xs)\<close>; an end that is not after the start gives the empty sequence.
\<close>

definition slice_bound :: "int \<Rightarrow> int \<Rightarrow> nat" where
  "slice_bound len i =
     (if i < 0 then (if i + len < 0 then 0 else nat (i + len))
      else (if len < i then nat len else nat i))"

definition py_slice :: "'a list \<Rightarrow> int \<Rightarrow> int \<Rightarrow> 'a list" where
  "py_slice xs begin end =
     (let len = int (length xs);
          start = slice_bound len begin;
          stop = slice_bound len end
      in take (stop - start) (drop start xs))"

subsection \<open>Data frames\<close>

text \<open>
  A data frame with a multi-level index: the names of the index levels, and the rows in
  order, each with its key (one label per level) and its other cells. The type of the
  labels is left open (\<open>'l\<close>): pandas infers it per column.
\<close>

record 'l frame =
  level_names :: "string list"
  rows :: "('l list \<times> string list) list"

text \<open>\<open>frame.index\<close>: the keys of the rows, in order.\<close>

definition frame_index :: "'l frame \<Rightarrow> 'l list list" where
  "frame_index fr = map fst (rows fr)"

text \<open>\<open>sort_index()\<close>: the rows in ascending order of their keys.\<close>

definition sort_index :: "('l::linorder) frame \<Rightarrow> 'l frame" where
  "sort_index fr = fr\<lparr>rows := sort_key fst (rows fr)\<rparr>"

text \<open>
  \<open>unique()\<close>: one pass that keeps a value the first time it is seen, so the values
  come out in the order of their first occurrence.
\<close>

fun unique_from :: "'a list \<Rightarrow> 'a list \<Rightarrow> 'a list" where
  "unique_from seen [] = []"
| "unique_from seen (x # xs) =
     (if x \<in> set seen then unique_from seen xs else x # unique_from (x # seen) xs)"

definition unique :: "'a list \<Rightarrow> 'a list" where
  "unique xs = unique_from [] xs"

text \<open>
  \<open>droplevel(name)\<close> on the keys of a multi-level index: the level is found by its
  name (a name that occurs twice is a ValueError, a name that does not occur a KeyError)
  and its label is taken out of every key.
\<close>

definition level_number :: "string \<Rightarrow> string list \<Rightarrow> nat" where
  "level_number level names = length (takeWhile (\<lambda>x. x \<noteq> level) names)"

definition drop_nth :: "nat \<Rightarrow> 'a list \<Rightarrow> 'a list" where
  "drop_nth i xs = take i xs @ drop (Suc i) xs"

definition droplevel :: "string \<Rightarrow> string list \<Rightarrow> 'l list list \<Rightarrow> error + 'l list list" where
  "droplevel level names keys =
     (if 1 < count_list names level then Inl ValueError
      else if level \<notin> set names then Inl KeyError
      else Inr (map (drop_nth (level_number level names)) keys))"

subsection \<open>Paths (posixpath)\<close>

text \<open>
  \<open>os.path.join\<close> of two parts: an absolute second part replaces the first; a
  separator is put between them unless the first is empty or ends with one.
\<close>

definition join :: "string \<Rightarrow> string \<Rightarrow> string" where
  "join a b =
     (if b \<noteq> [] \<and> hd b = CHR ''/'' then b
      else if a = [] \<or> last a = CHR ''/'' then a @ b
      else a @ ''/'' @ b)"

text \<open>\<open>os.path.basename\<close>: what follows the last separator.\<close>

definition basename :: "string \<Rightarrow> string" where
  "basename p = rev (takeWhile (\<lambda>c. c \<noteq> CHR ''/'') (rev p))"

text \<open>
  \<open>os.path.splitext\<close>: the extension starts at the last dot of the base name, unless
  only dots come before it in the base name.
\<close>

definition splitext :: "string \<Rightarrow> string \<times> string" where
  "splitext p =
     (let name = basename p;
          dir = take (length p - length name) p;
          ext = rev (takeWhile (\<lambda>c. c \<noteq> CHR ''.'') (rev name));
          stem = take (length name - length ext - 1) name
      in if CHR ''.'' \<in> set name \<and> (\<exists>c \<in> set stem. c \<noteq> CHR ''.'')
         then (dir @ stem, CHR ''.'' # ext)
         else (p, []))"

subsection \<open>The file system and zip archives\<close>

text \<open>
  What a path holds: a directory, or a file. The content of a file is kept at the level
  the program reads it: a table for a CSV file that pandas can parse, the members for a
  zip archive (names as stored, in the order they were written), bytes for the rest.
\<close>

datatype 'l entry =
    Directory
  | Bytes string
  | Csv "'l frame"
  | Zip "(string \<times> 'l entry) list"

text \<open>
  The file system maps a location, the list of the names from the root down, to what it
  holds. A directory exists when it is listed or when something is listed below it. The
  current directory is the root, and there are no links.
\<close>

type_synonym 'l fs = "(string list \<times> 'l entry) list"

fun split_path :: "string \<Rightarrow> string list" where
  "split_path [] = [[]]"
| "split_path (c # cs) =
     (if c = CHR ''/'' then [] # split_path cs
      else (case split_path cs of
              [] \<Rightarrow> [[c]]
            | x # xs \<Rightarrow> (c # x) # xs))"

definition walk :: "string list \<Rightarrow> string \<Rightarrow> string list" where
  "walk loc name =
     (if name = ''..'' then butlast loc
      else if name = [] \<or> name = ''.'' then loc
      else loc @ [name])"

definition resolve :: "string \<Rightarrow> string list" where
  "resolve p = foldl walk [] (split_path p)"

definition below :: "string list \<Rightarrow> string list \<Rightarrow> bool" where
  "below loc q = (take (length loc) q = loc)"

definition is_file :: "'l fs \<Rightarrow> string list \<Rightarrow> bool" where
  "is_file fs loc =
     (case map_of fs loc of None \<Rightarrow> False | Some Directory \<Rightarrow> False | Some _ \<Rightarrow> True)"

definition is_dir :: "'l fs \<Rightarrow> string list \<Rightarrow> bool" where
  "is_dir fs loc =
     (loc = [] \<or> map_of fs loc = Some Directory
      \<or> (\<exists>q \<in> set (map fst fs). below loc q \<and> q \<noteq> loc))"

text \<open>\<open>os.path.exists\<close>; the empty path names nothing.\<close>

definition path_exists :: "'l fs \<Rightarrow> string \<Rightarrow> bool" where
  "path_exists fs p = (p \<noteq> [] \<and> (is_file fs (resolve p) \<or> is_dir fs (resolve p)))"

text \<open>
  Opening a file for reading. The empty path and a path that ends with a separator name
  no file.
\<close>

definition read_file :: "'l fs \<Rightarrow> string \<Rightarrow> error + 'l entry" where
  "read_file fs p =
     (if p = [] then Inl FileNotFoundError
      else if last p = CHR ''/'' then
        (if is_dir fs (resolve p) then Inl IsADirectoryError
         else if is_file fs (resolve p) then Inl NotADirectoryError
         else Inl FileNotFoundError)
      else (case map_of fs (resolve p) of
              Some Directory \<Rightarrow> Inl IsADirectoryError
            | Some e \<Rightarrow> Inr e
            | None \<Rightarrow>
                if is_dir fs (resolve p) then Inl IsADirectoryError
                else Inl FileNotFoundError))"

definition put :: "'l fs \<Rightarrow> string list \<Rightarrow> 'l entry \<Rightarrow> 'l fs" where
  "put fs loc e =
     (if loc \<in> set (map fst fs) then map (\<lambda>(q, x). if q = loc then (q, e) else (q, x)) fs
      else fs @ [(loc, e)])"

text \<open>
  \<open>ZipFile.extractall\<close>: each member goes to the target directory followed by the
  names of its stored path, empty names, \<open>.\<close> and \<open>..\<close> left out; missing
  directories are made on the way. A file in the place of a directory, or a directory in
  the place of a file, stops the extraction where it is.
\<close>

definition member_names :: "string \<Rightarrow> string list" where
  "member_names name =
     filter (\<lambda>c. c \<noteq> [] \<and> c \<noteq> ''.'' \<and> c \<noteq> ''..'') (split_path name)"

definition blocked :: "'l fs \<Rightarrow> string list \<Rightarrow> bool" where
  "blocked fs loc = (\<exists>i \<in> set [0..<length loc]. is_file fs (take i loc))"

definition extract_member :: "'l fs \<Rightarrow> string list \<Rightarrow> string \<times> 'l entry \<Rightarrow> error + 'l fs" where
  "extract_member fs target m =
     (let loc = target @ member_names (fst m) in
      if blocked fs loc then Inl NotADirectoryError
      else (case snd m of
              Directory \<Rightarrow>
                if is_file fs loc then Inl NotADirectoryError
                else if is_dir fs loc then Inr fs
                else Inr (put fs loc Directory)
            | e \<Rightarrow>
                if is_dir fs loc then Inl IsADirectoryError
                else Inr (put fs loc e)))"

fun extractall :: "'l fs \<Rightarrow> (string \<times> 'l entry) list \<Rightarrow> string list \<Rightarrow> 'l fs \<times> (error + unit)" where
  "extractall fs [] target = (fs, Inr ())"
| "extractall fs (m # ms) target =
     (case extract_member fs target m of
        Inl e \<Rightarrow> (fs, Inl e)
      | Inr fs' \<Rightarrow> extractall fs' ms target)"

text \<open>\<open>zipfile.ZipFile(path)\<close>, for reading.\<close>

definition open_zip :: "'l fs \<Rightarrow> string \<Rightarrow> error + (string \<times> 'l entry) list" where
  "open_zip fs p =
     (case read_file fs p of
        Inl e \<Rightarrow> Inl e
      | Inr (Zip ms) \<Rightarrow> Inr ms
      | Inr _ \<Rightarrow> Inl BadZipFile)"

text \<open>
  \<open>zipfile.ZipFile(path, mode='w')\<close>: the file is created, or emptied, in a
  directory that exists.
\<close>

definition create_zip :: "'l fs \<Rightarrow> string \<Rightarrow> error + 'l fs" where
  "create_zip fs p =
     (if p = [] then Inl FileNotFoundError
      else if last p = CHR ''/'' \<or> is_dir fs (resolve p) then Inl IsADirectoryError
      else if blocked fs (resolve p) then Inl NotADirectoryError
      else if \<not> is_dir fs (butlast (resolve p)) then Inl FileNotFoundError
      else Inr (put fs (resolve p) (Zip [])))"

text \<open>
  \<open>archive.write(filename, arcname)\<close> reads what \<open>filename\<close> holds; a directory
  is stored as a directory. The member is kept under \<open>arcname\<close> as it is given; the
  extraction takes the name apart.
\<close>

definition read_source :: "'l fs \<Rightarrow> string \<Rightarrow> error + 'l entry" where
  "read_source fs p =
     (if p \<noteq> [] \<and> is_dir fs (resolve p) then Inr Directory else read_file fs p)"

text \<open>
  \<open>pandas.read_csv(path, index_col=[0, 1, 2])\<close>: the table of a CSV file, its first
  three columns as the index.
\<close>

definition read_csv :: "'l fs \<Rightarrow> string \<Rightarrow> error + 'l frame" where
  "read_csv fs p =
     (case read_file fs p of
        Inl e \<Rightarrow> Inl e
      | Inr (Csv fr) \<Rightarrow> Inr fr
      | Inr _ \<Rightarrow> Inl ParserError)"

text \<open>
  \<open>skimage.io.imread\<close> and \<open>numpy.loadtxt\<close> give the content of the file; the
  decoding of pixels and of numbers is not part of the model.
\<close>

definition imread :: "'l fs \<Rightarrow> string \<Rightarrow> error + 'l entry" where
  "imread fs p = read_file fs p"

definition loadtxt :: "'l fs \<Rightarrow> string \<Rightarrow> error + 'l entry" where
  "loadtxt fs p = read_file fs p"

text \<open>
  Modelled from the spec: \<open>dfa.utilities.read_points_from_imagej_zip\<close> is not among
  the sources. The spec has it load the fibre annotations from a zip of one point-list
  file per fibre, as a list of point lists: here, the contents of the members.
\<close>

definition read_points_from_imagej_zip :: "'l fs \<Rightarrow> string \<Rightarrow> error + 'l entry list" where
  "read_points_from_imagej_zip fs p =
     (case open_zip fs p of Inl e \<Rightarrow> Inl e | Inr ms \<Rightarrow> Inr (map snd ms))"

subsection \<open>The Dataset object\<close>

record 'l Dataset =
  archive :: string
  storing_path :: string
  dataset_path :: string
  summary :: "'l frame"
  image_index :: "'l list list"
  profile_index :: "'l list list"
  n_image :: int
  n_profile :: int

text \<open>\<open>_decompress\<close>: the archive is opened and all of it extracted at the storing path.\<close>

definition decompress :: "'l fs \<Rightarrow> string \<Rightarrow> string \<Rightarrow> 'l fs \<times> (error + unit)" where
  "decompress fs archive' storing_path' =
     (case open_zip fs archive' of
        Inl e \<Rightarrow> (fs, Inl e)
      | Inr zipfiles \<Rightarrow> extractall fs zipfiles (resolve storing_path'))"

text \<open>
  The constructor, on a file system that it gives back as it leaves it, also when it
  raises. \<open>tmp.sample(frac=1)\<close> draws a random order of the rows: the draw is the
  argument \<open>sample\<close>.
\<close>

definition Dataset_init ::
  "('l::linorder) fs \<Rightarrow> (('l list \<times> string list) list \<Rightarrow> ('l list \<times> string list) list)
     \<Rightarrow> string \<Rightarrow> string \<Rightarrow> bool \<Rightarrow> bool \<Rightarrow> 'l fs \<times> (error + 'l Dataset)" where
  "Dataset_init fs sample archive' storing_path' force_decompress shuffle =
     (let dataset_path' = join storing_path' (fst (splitext (basename archive')))
      in case (if force_decompress \<or> \<not> path_exists fs dataset_path'
               then decompress fs archive' storing_path'
               else (fs, Inr ())) of
           (fs', Inl e) \<Rightarrow> (fs', Inl e)
         | (fs', Inr _) \<Rightarrow>
             (case read_csv fs' (join dataset_path' ''summary.csv'') of
                Inl e \<Rightarrow> (fs', Inl e)
              | Inr fr \<Rightarrow>
                  let summary' = sort_index fr;
                      tmp = (if shuffle then summary'\<lparr>rows := sample (rows summary')\<rparr>
                             else summary')
                  in (case droplevel ''fiber'' (level_names tmp) (frame_index tmp) of
                        Inl e \<Rightarrow> (fs', Inl e)
                      | Inr keys \<Rightarrow>
                          (fs', Inr \<lparr>archive = archive',
                                     storing_path = storing_path',
                                     dataset_path = dataset_path',
                                     summary = summary',
                                     image_index = unique keys,
                                     profile_index = unique (frame_index tmp),
                                     n_image = 0,
                                     n_profile = 0\<rparr>))))"

subsection \<open>next\_batch\<close>

text \<open>
  \<open>next_batch\<close> reads two attributes by name: the index (\<open>'image_index'\<close> or
  \<open>'profile_index'\<close>) and the cursor (\<open>'_n_image'\<close> or \<open>'_n_profile'\<close>).
\<close>

datatype index_attr = Image_index | Profile_index

datatype cursor_attr = N_image | N_profile

fun getattr_index :: "'l Dataset \<Rightarrow> index_attr \<Rightarrow> 'l list list" where
  "getattr_index self Image_index = image_index self"
| "getattr_index self Profile_index = profile_index self"

fun getattr_n :: "'l Dataset \<Rightarrow> cursor_attr \<Rightarrow> int" where
  "getattr_n self N_image = n_image self"
| "getattr_n self N_profile = n_profile self"

fun setattr_n :: "'l Dataset \<Rightarrow> cursor_attr \<Rightarrow> int \<Rightarrow> 'l Dataset" where
  "setattr_n self N_image v = self\<lparr>n_image := v\<rparr>"
| "setattr_n self N_profile v = self\<lparr>n_profile := v\<rparr>"

text \<open>
  The body of \<open>next_batch\<close> from its first line to the head of the \<open>for\<close> loop
  (lines 99 to 107): the comparison of the cursor with the size of the index, the default
  of \<open>batch_size\<close>, the new cursor, and the slice the loop will run over. The
  \<open>else\<close> branch returns at once, which is the empty slice with the object untouched.
\<close>

definition next_batch_start ::
  "'l Dataset \<Rightarrow> index_attr \<Rightarrow> cursor_attr \<Rightarrow> int option \<Rightarrow> 'l list list \<times> 'l Dataset" where
  "next_batch_start self index n batch_size =
     (if getattr_n self n < int (length (getattr_index self index)) then
        let batch_size' = (case batch_size of
                             None \<Rightarrow> int (length (getattr_index self index))
                           | Some k \<Rightarrow> k);
            begin = getattr_n self n;
            end = getattr_n self n + batch_size';
            self' = setattr_n self n end
        in (py_slice (getattr_index self' index) begin end, self')
      else ([], self))"

text \<open>
  \<open>next_batch\<close> is a generator function: calling it binds the arguments and runs
  nothing. The generator is then in one of three states: created (the body has not
  started), suspended at the \<open>yield\<close> with the keys the loop has still to visit, or
  finished.
\<close>

datatype ('l, 'e) generator =
    Created index_attr cursor_attr "'l list \<Rightarrow> error + 'e" "int option"
  | Suspended "'l list list" "'l list \<Rightarrow> error + 'e"
  | Finished

datatype 'e step = Yield 'e | StopIteration | Raise error

definition next_batch ::
  "'l Dataset \<Rightarrow> index_attr \<Rightarrow> cursor_attr \<Rightarrow> ('l list \<Rightarrow> error + 'e) \<Rightarrow> int option
     \<Rightarrow> ('l, 'e) generator" where
  "next_batch self index n mapping batch_size = Created index n mapping batch_size"

text \<open>
  One turn of the \<open>for\<close> loop: the next key is mapped and yielded; an exception of the
  mapping leaves the generator finished; no key left ends the generator.
\<close>

fun resume ::
  "'l list list \<Rightarrow> ('l list \<Rightarrow> error + 'e) \<Rightarrow> 'l Dataset
     \<Rightarrow> 'e step \<times> ('l, 'e) generator \<times> 'l Dataset" where
  "resume [] mapping self = (StopIteration, Finished, self)"
| "resume (key # keys) mapping self =
     (case mapping key of
        Inl e \<Rightarrow> (Raise e, Finished, self)
      | Inr v \<Rightarrow> (Yield v, Suspended keys mapping, self))"

text \<open>
  \<open>next(g)\<close>: the generator runs to its next \<open>yield\<close>, on the object as it is at
  that moment.
\<close>

fun gen_next ::
  "('l, 'e) generator \<Rightarrow> 'l Dataset \<Rightarrow> 'e step \<times> ('l, 'e) generator \<times> 'l Dataset" where
  "gen_next (Created index n mapping batch_size) self =
     (case next_batch_start self index n batch_size of
        (keys, self') \<Rightarrow> resume keys mapping self')"
| "gen_next (Suspended keys mapping) self = resume keys mapping self"
| "gen_next Finished self = (StopIteration, Finished, self)"

text \<open>
  The mapped elements of a list of keys, up to the first exception of the mapping.
\<close>

fun drain :: "('l list \<Rightarrow> error + 'e) \<Rightarrow> 'l list list \<Rightarrow> 'e list \<times> error option" where
  "drain mapping [] = ([], None)"
| "drain mapping (key # keys) =
     (case mapping key of
        Inl e \<Rightarrow> ([], Some e)
      | Inr v \<Rightarrow> (case drain mapping keys of (vs, r) \<Rightarrow> (v # vs, r)))"

text \<open>
  \<open>list(g)\<close>: the generator is run to its end. The result is the elements it yielded,
  the exception that ended it (if one did) and the object afterwards.
\<close>

definition consume ::
  "('l, 'e) generator \<Rightarrow> 'l Dataset \<Rightarrow> 'e list \<times> error option \<times> 'l Dataset" where
  "consume g self =
     (case g of
        Created index n mapping batch_size \<Rightarrow>
          (case next_batch_start self index n batch_size of
             (keys, self') \<Rightarrow>
               (case drain mapping keys of (vs, r) \<Rightarrow> (vs, r, self')))
      | Suspended keys mapping \<Rightarrow>
          (case drain mapping keys of (vs, r) \<Rightarrow> (vs, r, self))
      | Finished \<Rightarrow> ([], None, self))"

text \<open>
  Asking for batches of size \<open>k\<close> until one comes back empty, each generator run to
  its end before the next call: the batches in the order they came.
\<close>

function batches ::
  "'l Dataset \<Rightarrow> index_attr \<Rightarrow> cursor_attr \<Rightarrow> ('l list \<Rightarrow> error + 'e) \<Rightarrow> int \<Rightarrow> 'e list list" where
  "batches self index n mapping k =
     (case consume (next_batch self index n mapping (Some k)) self of
        (vs, r, self') \<Rightarrow> if vs = [] then [] else vs # batches self' index n mapping k)"
  by pat_completeness auto
termination
proof (relation "measure (\<lambda>(self, index, n, mapping, k).
          if 1 \<le> k then nat (int (length (getattr_index self index)) - getattr_n self n)
          else if 0 \<le> getattr_n self n then 1 else 0)", goal_cases)
  case 1
  show ?case by simp
next
  case (2 self index n mapping k vs y r self')
  then have c: "consume (next_batch self index n mapping (Some k)) self = (vs, r, self')"
    by simp
  have keys: "fst (next_batch_start self index n (Some k)) \<noteq> []"
    using c \<open>vs \<noteq> []\<close>
    by (cases "next_batch_start self index n (Some k)")
       (auto simp: consume_def next_batch_def split: prod.splits)
  have self': "self' = snd (next_batch_start self index n (Some k))"
    using c by (auto simp: consume_def next_batch_def split: prod.splits)
  have below: "getattr_n self n < int (length (getattr_index self index))"
    using keys by (auto simp: next_batch_start_def split: if_splits)
  have idx: "getattr_index (setattr_n self n (getattr_n self n + k)) index = getattr_index self index"
    by (cases n; cases index) simp_all
  have cur: "getattr_n self' n = getattr_n self n + k"
    using below self' by (cases n) (simp_all add: next_batch_start_def Let_def)
  have idx': "getattr_index self' index = getattr_index self index"
    using below self' idx by (simp add: next_batch_start_def Let_def)
  have sl: "py_slice (getattr_index self index) (getattr_n self n) (getattr_n self n + k) \<noteq> []"
    using keys below idx by (simp add: next_batch_start_def Let_def)
  have "1 \<le> k \<or> (0 \<le> getattr_n self n \<and> getattr_n self n + k < 0)"
    using sl by (auto simp: py_slice_def slice_bound_def Let_def split: if_splits)
  then show ?case
    using below cur idx' by (cases "1 \<le> k") auto
qed

text \<open>
  A list cut into consecutive pieces of \<open>k\<close> elements, the last one with what is left:
  the partition the batches are compared with.
\<close>

function chunk :: "nat \<Rightarrow> 'a list \<Rightarrow> 'a list list" where
  "chunk k xs = (if k = 0 \<or> xs = [] then [] else take k xs # chunk k (drop k xs))"
  by pat_completeness auto
termination
  by (relation "measure (\<lambda>(k, xs). length xs)") auto

subsection \<open>next\_image\_batch and next\_profile\_batch\<close>

text \<open>
  The file names are made with \<open>str.format\<close>, which takes the labels of the key in
  order and raises IndexError when the key has too few; \<open>str\<close> prints a label.
\<close>

definition format2 :: "('l \<Rightarrow> string) \<Rightarrow> string \<Rightarrow> 'l list \<Rightarrow> error + string" where
  "format2 str ext ix =
     (case ix of
        a # b # _ \<Rightarrow> Inr (str a @ ''-'' @ str b @ ext)
      | _ \<Rightarrow> Inl IndexError)"

definition format3 :: "('l \<Rightarrow> string) \<Rightarrow> 'l list \<Rightarrow> error + string" where
  "format3 str ix =
     (case ix of
        a # b # c # _ \<Rightarrow> Inr (str a @ ''-'' @ str b @ ''-Profiles #'' @ str c @ ''.csv'')
      | _ \<Rightarrow> Inl IndexError)"

text \<open>\<open>self.summary.ix[index]\<close>: the rows of the summary with this key.\<close>

definition ix :: "'l frame \<Rightarrow> 'l list \<Rightarrow> error + ('l list \<times> string list) list" where
  "ix fr key =
     (case filter (\<lambda>r. fst r = key) (rows fr) of
        [] \<Rightarrow> Inl KeyError
      | r # rs \<Rightarrow> Inr (r # rs))"

text \<open>
  The two mappings (the lambdas of lines 129 and 160), reading the file system \<open>fs\<close>
  when an element is asked for.
\<close>

definition image_mapping ::
  "('l \<Rightarrow> string) \<Rightarrow> 'l fs \<Rightarrow> 'l Dataset \<Rightarrow> 'l list
     \<Rightarrow> error + ('l list \<times> 'l entry \<times> 'l entry list)" where
  "image_mapping str fs self key =
     (case format2 str ''.tif'' key of
        Inl e \<Rightarrow> Inl e
      | Inr tif \<Rightarrow>
     (case imread fs (join (join (dataset_path self) ''input'') tif) of
        Inl e \<Rightarrow> Inl e
      | Inr img \<Rightarrow>
     (case format2 str ''.zip'' key of
        Inl e \<Rightarrow> Inl e
      | Inr fzip \<Rightarrow>
     (case read_points_from_imagej_zip fs (join (join (dataset_path self) ''fibers'') fzip) of
        Inl e \<Rightarrow> Inl e
      | Inr fibers \<Rightarrow> Inr (key, img, fibers)))))"

definition profile_mapping ::
  "('l \<Rightarrow> string) \<Rightarrow> 'l fs \<Rightarrow> 'l Dataset \<Rightarrow> 'l list
     \<Rightarrow> error + ('l list \<times> 'l entry \<times> ('l list \<times> string list) list)" where
  "profile_mapping str fs self key =
     (case format3 str key of
        Inl e \<Rightarrow> Inl e
      | Inr pcsv \<Rightarrow>
     (case loadtxt fs (join (join (dataset_path self) ''profiles'') pcsv) of
        Inl e \<Rightarrow> Inl e
      | Inr profiles \<Rightarrow>
     (case ix (summary self) key of
        Inl e \<Rightarrow> Inl e
      | Inr view \<Rightarrow> Inr (key, profiles, view))))"

definition next_image_batch ::
  "('l \<Rightarrow> string) \<Rightarrow> 'l fs \<Rightarrow> 'l Dataset \<Rightarrow> int option
     \<Rightarrow> ('l, 'l list \<times> 'l entry \<times> 'l entry list) generator" where
  "next_image_batch str fs self batch_size =
     next_batch self Image_index N_image (image_mapping str fs self) batch_size"

definition next_profile_batch ::
  "('l \<Rightarrow> string) \<Rightarrow> 'l fs \<Rightarrow> 'l Dataset \<Rightarrow> int option
     \<Rightarrow> ('l, 'l list \<times> 'l entry \<times> ('l list \<times> string list) list) generator" where
  "next_profile_batch str fs self batch_size =
     next_batch self Profile_index N_profile (profile_mapping str fs self) batch_size"

subsection \<open>\_save and save\<close>

text \<open>\<open>'-'.join(str(e) for e in ix)\<close>.\<close>

fun join_dash :: "string list \<Rightarrow> string" where
  "join_dash [] = []"
| "join_dash [a] = a"
| "join_dash (a # b # cs) = a @ ''-'' @ join_dash (b # cs)"

text \<open>
  The two loops of \<open>_save\<close> as the list of their calls of \<open>archive.write\<close>, each
  with its \<open>filename\<close> and its \<open>arcname\<close>; \<open>ix[-1]\<close> of an empty key is an
  IndexError. \<open>ut.fiber_indicator\<close> is a constant of a module that is not among the
  sources: it is the argument \<open>fiber_indicator\<close>.
\<close>

definition image_writes ::
  "('l \<Rightarrow> string) \<Rightarrow> string \<Rightarrow> string \<Rightarrow> 'l list \<Rightarrow> (error + string \<times> string) list" where
  "image_writes str images_path fibers_path key =
     (let name = join_dash (map str key)
      in [Inr (join images_path (name @ ''.tif''), join (basename images_path) (name @ ''.tif'')),
          Inr (join fibers_path (name @ ''.zip''), join (basename fibers_path) (name @ ''.zip''))])"

definition profile_write ::
  "('l \<Rightarrow> string) \<Rightarrow> string \<Rightarrow> string \<Rightarrow> 'l list \<Rightarrow> error + string \<times> string" where
  "profile_write str fiber_indicator profiles_path key =
     (if key = [] then Inl IndexError
      else let name = join_dash (map str (butlast key)) @ fiber_indicator @ str (last key) @ ''.csv''
           in Inr (join profiles_path name, join (basename profiles_path) name))"

fun write_all ::
  "'l fs \<Rightarrow> (error + string \<times> string) list \<Rightarrow> (string \<times> 'l entry) list
     \<Rightarrow> (string \<times> 'l entry) list \<times> (error + unit)" where
  "write_all fs [] members = (members, Inr ())"
| "write_all fs (Inl e # ws) members = (members, Inl e)"
| "write_all fs (Inr (filename, arcname) # ws) members =
     (case read_source fs filename of
        Inl e \<Rightarrow> (members, Inl e)
      | Inr c \<Rightarrow> write_all fs ws (members @ [(arcname, c)]))"

text \<open>
  \<open>_save\<close> (a static method): the output archive is opened first; whatever stops the writing, the
  archive is closed with the members written so far.
\<close>

definition static_save ::
  "('l \<Rightarrow> string) \<Rightarrow> string \<Rightarrow> 'l fs \<Rightarrow> 'l frame \<Rightarrow> string \<Rightarrow> string \<Rightarrow> string \<Rightarrow> string
     \<Rightarrow> 'l fs \<times> (error + unit)" where
  "static_save str fiber_indicator fs summary' output_path images_path fibers_path profiles_path =
     (case create_zip fs output_path of
        Inl e \<Rightarrow> (fs, Inl e)
      | Inr fs' \<Rightarrow>
          (case droplevel ''fiber'' (level_names summary') (frame_index summary') of
             Inl e \<Rightarrow> (fs', Inl e)
           | Inr keys \<Rightarrow>
               (case write_all fs'
                       (concat (map (image_writes str images_path fibers_path) (unique keys))
                        @ map (profile_write str fiber_indicator profiles_path)
                            (unique (frame_index summary')))
                       [] of
                  (members, r) \<Rightarrow> (put fs' (resolve output_path) (Zip members), r))))"

definition save ::
  "('l \<Rightarrow> string) \<Rightarrow> string \<Rightarrow> 'l fs \<Rightarrow> 'l Dataset \<Rightarrow> string \<Rightarrow> 'l fs \<times> (error + unit)" where
  "save str fiber_indicator fs self path =
     static_save str fiber_indicator fs (summary self) path
       (join (dataset_path self) ''images'')
       (join (dataset_path self) ''fibers'')
       (join (dataset_path self) ''profiles'')"

subsection \<open>Sequences of batch calls\<close>

text \<open>
  A call of one of the two batch methods whose generator is run to its end, and a
  sequence of such calls on the same object.
\<close>

datatype batch_call = Image_batch "int option" | Profile_batch "int option"

fun call_batch :: "('l \<Rightarrow> string) \<Rightarrow> 'l fs \<Rightarrow> 'l Dataset \<Rightarrow> batch_call \<Rightarrow> 'l Dataset" where
  "call_batch str fs self (Image_batch batch_size) =
     snd (snd (consume (next_image_batch str fs self batch_size) self))"
| "call_batch str fs self (Profile_batch batch_size) =
     snd (snd (consume (next_profile_batch str fs self batch_size) self))"

definition call_batches :: "('l \<Rightarrow> string) \<Rightarrow> 'l fs \<Rightarrow> 'l Dataset \<Rightarrow> batch_call list \<Rightarrow> 'l Dataset" where
  "call_batches str fs self calls = foldl (call_batch str fs) self calls"

text \<open>The number of keys a call asks for: its batch size, or the size of its index.\<close>

fun requested :: "'l Dataset \<Rightarrow> batch_call \<Rightarrow> int" where
  "requested self (Image_batch None) = int (length (image_index self))"
| "requested self (Image_batch (Some k)) = k"
| "requested self (Profile_batch None) = int (length (profile_index self))"
| "requested self (Profile_batch (Some k)) = k"

subsection \<open>An example\<close>

text \<open>
  The dataset of the spec's scenario: two images, \<open>A\<close> with two fibres and \<open>B\<close> with
  one, in an archive whose members lie under the directory \<open>set\<close>; and an archive
  with the summary alone, at its top level.
\<close>

definition example_table :: "string frame" where
  "example_table =
     \<lparr>level_names = [''experiment'', ''image'', ''fiber''],
      rows = [([''e'', ''B'', ''1''], [''0.5'']),
              ([''e'', ''A'', ''1''], [''0.7'']),
              ([''e'', ''A'', ''2''], [''0.9''])]\<rparr>"

definition example_archive :: "(string \<times> string entry) list" where
  "example_archive =
     [(''set/summary.csv'', Csv example_table),
      (''set/input/e-A.tif'', Bytes ''a''),
      (''set/input/e-B.tif'', Bytes ''b''),
      (''set/images/e-A.tif'', Bytes ''a''),
      (''set/images/e-B.tif'', Bytes ''b''),
      (''set/fibers/e-A.zip'', Zip [(''1.roi'', Bytes ''r1''), (''2.roi'', Bytes ''r2'')]),
      (''set/fibers/e-B.zip'', Zip [(''1.roi'', Bytes ''r3'')]),
      (''set/profiles/e-A-Profiles #1.csv'', Bytes ''p1''),
      (''set/profiles/e-A-Profiles #2.csv'', Bytes ''p2''),
      (''set/profiles/e-B-Profiles #1.csv'', Bytes ''p3'')]"

definition example_fs :: "string fs" where
  "example_fs =
     [([''data'', ''set.zip''], Zip example_archive),
      ([''tmp''], Directory),
      ([''out''], Directory)]"

definition flat_fs :: "string fs" where
  "flat_fs =
     [([''data'', ''set.zip''], Zip [(''summary.csv'', Csv example_table)]),
      ([''tmp''], Directory)]"

definition example :: "string Dataset" where
  "example =
     \<lparr>archive = ''/data/set.zip'',
      storing_path = ''/tmp'',
      dataset_path = ''/tmp/set'',
      summary = sort_index example_table,
      image_index = [[''e'', ''A''], [''e'', ''B'']],
      profile_index = [[''e'', ''A'', ''1''], [''e'', ''A'', ''2''], [''e'', ''B'', ''1'']],
      n_image = 0,
      n_profile = 0\<rparr>"

definition extracted_fs :: "string fs" where
  "extracted_fs = fst (Dataset_init example_fs id ''/data/set.zip'' ''/tmp'' False False)"

section \<open>Properties\<close>

subsection \<open>The example\<close>

lemma example_init:
  "Dataset_init example_fs id ''/data/set.zip'' ''/tmp'' False False = (extracted_fs, Inr example)"
  by code_simp

subsection \<open>Slices\<close>

lemma py_slice_forward:
  "0 \<le> b \<Longrightarrow> 0 \<le> k \<Longrightarrow> py_slice xs b (b + k) = take (nat k) (drop (nat b) xs)"
  by (auto simp: py_slice_def slice_bound_def Let_def min_def nat_diff_distrib nat_add_distrib)

lemma py_slice_backward:
  assumes "k < 0"
  shows "py_slice xs b (b + k) =
     (if 0 \<le> b \<and> b + k < 0 then take (nat (int (length xs) + k)) (drop (nat b) xs) else [])"
proof (cases "0 \<le> b \<and> b + k < 0")
  case True
  show ?thesis
  proof (cases "int (length xs) < b")
    case over: True
    then show ?thesis
      using True by (simp add: py_slice_def slice_bound_def Let_def)
  next
    case False
    have "slice_bound (int (length xs)) (b + k) - slice_bound (int (length xs)) b
            = nat (int (length xs) + k)"
      using True False by (auto simp: slice_bound_def)
    moreover have "slice_bound (int (length xs)) b = nat b"
      using True False by (auto simp: slice_bound_def)
    ultimately show ?thesis
      using True by (simp add: py_slice_def Let_def)
  qed
next
  case False
  have "slice_bound (int (length xs)) (b + k) \<le> slice_bound (int (length xs)) b"
    using False assms by (auto simp: slice_bound_def)
  then have "py_slice xs b (b + k) = []"
    by (simp add: py_slice_def Let_def)
  with False show ?thesis by auto
qed

lemma py_slice_same: "py_slice xs b b = []"
  by (simp add: py_slice_def)

subsection \<open>Attributes\<close>

lemma getattr_n_setattr_n [simp]: "getattr_n (setattr_n self n v) n = v"
  by (cases n) simp_all

lemma getattr_index_setattr_n [simp]:
  "getattr_index (setattr_n self n v) index = getattr_index self index"
  by (cases n; cases index) simp_all

lemma setattr_n_same [simp]: "setattr_n self n (getattr_n self n) = self"
  by (cases n) simp_all

subsection \<open>Running a generator\<close>

lemma drain_total:
  "\<forall>key \<in> set keys. mapping key = Inr (f key) \<Longrightarrow> drain mapping keys = (map f keys, None)"
  by (induction keys) simp_all

lemma consume_Suspended:
  "consume (Suspended keys mapping) self = (fst (drain mapping keys), snd (drain mapping keys), self)"
  by (simp add: consume_def split: prod.splits)

text \<open>\<open>consume\<close> is \<open>next\<close> called until the generator stops or raises.\<close>

lemma consume_gen_next:
  "consume g self =
     (case gen_next g self of
        (Yield v, g', self') \<Rightarrow>
          (case consume g' self' of (vs, r, self'') \<Rightarrow> (v # vs, r, self''))
      | (StopIteration, g', self') \<Rightarrow> ([], None, self')
      | (Raise e, g', self') \<Rightarrow> ([], Some e, self'))"
proof (cases g)
  case (Created index n mapping batch_size)
  obtain keys self' where s: "next_batch_start self index n batch_size = (keys, self')"
    by (cases "next_batch_start self index n batch_size")
  show ?thesis
    using Created s
    by (cases keys) (auto simp: consume_def split: sum.splits prod.splits)
next
  case (Suspended keys mapping)
  then show ?thesis
    by (cases keys) (auto simp: consume_def split: sum.splits prod.splits)
next
  case Finished
  then show ?thesis by (simp add: consume_def)
qed

lemma consume_next_batch:
  "consume (next_batch self index n mapping batch_size) self =
     (if getattr_n self n < int (length (getattr_index self index)) then
        (fst (drain mapping
               (py_slice (getattr_index self index) (getattr_n self n)
                  (getattr_n self n + (case batch_size of
                                         None \<Rightarrow> int (length (getattr_index self index))
                                       | Some k \<Rightarrow> k)))),
         snd (drain mapping
               (py_slice (getattr_index self index) (getattr_n self n)
                  (getattr_n self n + (case batch_size of
                                         None \<Rightarrow> int (length (getattr_index self index))
                                       | Some k \<Rightarrow> k)))),
         setattr_n self n
           (getattr_n self n + (case batch_size of
                                  None \<Rightarrow> int (length (getattr_index self index))
                                | Some k \<Rightarrow> k)))
      else ([], None, self))"
  by (simp add: consume_def next_batch_def next_batch_start_def Let_def split: prod.splits)

subsection \<open>Batches\<close>

text \<open>
  Claim C4. When the cursor is at or past the length of the index, a batch call, whatever
  its batch size, produces no element and does not fail: the generator, run to its end,
  has yielded nothing and raised nothing, its first \<open>next\<close> is already the end of the
  iteration, and the object is as it was.
\<close>

theorem next_batch_past_end:
  assumes "int (length (getattr_index self index)) \<le> getattr_n self n"
  shows "consume (next_batch self index n mapping batch_size) self = ([], None, self)
         \<and> gen_next (next_batch self index n mapping batch_size) self
             = (StopIteration, Finished, self)"
proof
  show "consume (next_batch self index n mapping batch_size) self = ([], None, self)"
    using assms by (simp add: consume_next_batch)
  show "gen_next (next_batch self index n mapping batch_size) self
          = (StopIteration, Finished, self)"
    using assms by (simp add: next_batch_def next_batch_start_def)
qed

theorem next_batch_past_end_witness:
  "int (length (getattr_index (example\<lparr>n_image := 2\<rparr>) Image_index))
     \<le> getattr_n (example\<lparr>n_image := 2\<rparr>) N_image
   \<and> consume (next_batch (example\<lparr>n_image := 2\<rparr>) Image_index N_image Inr (Some 5))
         (example\<lparr>n_image := 2\<rparr>)
       = ([], None, example\<lparr>n_image := 2\<rparr>)"
proof -
  have h: "int (length (getattr_index (example\<lparr>n_image := 2\<rparr>) Image_index))
             \<le> getattr_n (example\<lparr>n_image := 2\<rparr>) N_image"
    by (simp add: example_def)
  show ?thesis
    using h next_batch_past_end [OF h, of Inr "Some 5"] by simp
qed

text \<open>
  Claim C3 speaks of every Dataset whose cursor is below the length of its index. A
  batch of size -1 on the new example leaves the image cursor at -1; a batch of
  unspecified size then runs over the slice from -1 to 1, which is empty, and sets the
  cursor to 1: no key is yielded though both keys remain, and the cursor ends below the
  length 2.
\<close>

theorem negative_cursor_yields_nothing:
  "snd (snd (consume (next_batch example Image_index N_image Inr (Some (- 1))) example))
     = example\<lparr>n_image := - 1\<rparr>
   \<and> getattr_n (example\<lparr>n_image := - 1\<rparr>) N_image
       < int (length (getattr_index (example\<lparr>n_image := - 1\<rparr>) Image_index))
   \<and> consume (next_batch (example\<lparr>n_image := - 1\<rparr>) Image_index N_image Inr None)
         (example\<lparr>n_image := - 1\<rparr>)
       = ([], None, example\<lparr>n_image := 1\<rparr>)
   \<and> length (image_index example) = 2"
  by (simp add: consume_next_batch example_def py_slice_def slice_bound_def)

text \<open>
  Claim C3, amended. With the cursor not negative and below the length of the index, and
  a batch size that is unspecified or leaves cursor + batch size not negative (as every
  positive, documented size does), a batch call starts at the cursor: it visits the keys
  of the index from the cursor up to cursor + batch size, or all that remain when no size
  is given, in the order of the index, yielding the mapping of each (up to the first key
  whose mapping raises); and it sets the cursor to cursor + batch size, without clamping
  it, the batch size being the size of the index when none is given, so that the cursor
  then ends at or past the length.
\<close>

theorem next_batch_below_length:
  assumes "0 \<le> getattr_n self n"
    and "getattr_n self n < int (length (getattr_index self index))"
    and "\<forall>k. batch_size = Some k \<longrightarrow> 0 \<le> getattr_n self n + k"
    and "keys = (case batch_size of
                   None \<Rightarrow> drop (nat (getattr_n self n)) (getattr_index self index)
                 | Some k \<Rightarrow> take (nat k) (drop (nat (getattr_n self n)) (getattr_index self index)))"
    and "stop = getattr_n self n + (case batch_size of
                                      None \<Rightarrow> int (length (getattr_index self index))
                                    | Some k \<Rightarrow> k)"
  shows "consume (next_batch self index n mapping batch_size) self
           = (fst (drain mapping keys), snd (drain mapping keys), setattr_n self n stop)
         \<and> ((\<forall>key \<in> set keys. mapping key = Inr (f key)) \<longrightarrow>
              consume (next_batch self index n mapping batch_size) self
                = (map f keys, None, setattr_n self n stop))
         \<and> (batch_size = None \<longrightarrow> int (length (getattr_index self index)) \<le> stop)"
proof -
  have sl: "py_slice (getattr_index self index) (getattr_n self n) stop = keys"
  proof (cases batch_size)
    case None
    then show ?thesis
      using assms py_slice_forward [of "getattr_n self n" "int (length (getattr_index self index))" "getattr_index self index"]
      by simp
  next
    case (Some k)
    show ?thesis
    proof (cases "0 \<le> k")
      case True
      then show ?thesis
        using Some assms py_slice_forward [of "getattr_n self n" k "getattr_index self index"]
        by simp
    next
      case False
      then have "k < 0" by simp
      from py_slice_backward [OF this, of "getattr_index self index" "getattr_n self n"]
      show ?thesis
        using Some assms False by simp
    qed
  qed
  have c: "consume (next_batch self index n mapping batch_size) self
           = (fst (drain mapping keys), snd (drain mapping keys), setattr_n self n stop)"
    using assms(2) sl assms(5) by (simp add: consume_next_batch)
  have "consume (next_batch self index n mapping batch_size) self
          = (map f keys, None, setattr_n self n stop)"
    if "\<forall>key \<in> set keys. mapping key = Inr (f key)"
    using c drain_total [OF that] by simp
  moreover have "int (length (getattr_index self index)) \<le> stop" if "batch_size = None"
    using that assms(1,5) by simp
  ultimately show ?thesis
    using c by blast
qed

theorem next_batch_below_length_witness:
  "0 \<le> getattr_n (example\<lparr>n_image := 1\<rparr>) N_image
   \<and> getattr_n (example\<lparr>n_image := 1\<rparr>) N_image
       < int (length (getattr_index (example\<lparr>n_image := 1\<rparr>) Image_index))
   \<and> consume (next_batch (example\<lparr>n_image := 1\<rparr>) Image_index N_image Inr (Some 5))
         (example\<lparr>n_image := 1\<rparr>)
       = ([[''e'', ''B'']], None, example\<lparr>n_image := 6\<rparr>)"
proof -
  have h1: "0 \<le> getattr_n (example\<lparr>n_image := 1\<rparr>) N_image"
    by (simp add: example_def)
  have h2: "getattr_n (example\<lparr>n_image := 1\<rparr>) N_image
              < int (length (getattr_index (example\<lparr>n_image := 1\<rparr>) Image_index))"
    by (simp add: example_def)
  have h3: "\<forall>k. Some (5::int) = Some k
              \<longrightarrow> 0 \<le> getattr_n (example\<lparr>n_image := 1\<rparr>) N_image + k"
    by (simp add: example_def)
  have h4: "[[''e'', ''B'']] = (case Some (5::int) of
                None \<Rightarrow> drop (nat (getattr_n (example\<lparr>n_image := 1\<rparr>) N_image))
                          (getattr_index (example\<lparr>n_image := 1\<rparr>) Image_index)
              | Some k \<Rightarrow> take (nat k) (drop (nat (getattr_n (example\<lparr>n_image := 1\<rparr>) N_image))
                          (getattr_index (example\<lparr>n_image := 1\<rparr>) Image_index)))"
    by (simp add: example_def)
  have h5: "(6::int) = getattr_n (example\<lparr>n_image := 1\<rparr>) N_image
              + (case Some (5::int) of
                   None \<Rightarrow> int (length (getattr_index (example\<lparr>n_image := 1\<rparr>) Image_index))
                 | Some k \<Rightarrow> k)"
    by (simp add: example_def)
  have h6: "\<forall>key \<in> set [[''e'', ''B'']]. Inr key = (Inr (id key) :: error + string list)"
    by simp
  show ?thesis
    using h1 h2 h6 next_batch_below_length [OF h1 h2 h3 h4 h5, of Inr id] by simp
qed

text \<open>
  Claim C10 has a negative batch size yield no element. On the example, with the cursor
  at 0, a batch size of -1 makes the end of the slice -1, which Python counts from the end
  of the index: the call yields the first of the two keys, and leaves the cursor at -1.
\<close>

theorem negative_batch_size_yields:
  "consume (next_batch example Image_index N_image Inr (Some (- 1))) example
     = ([[''e'', ''A'']], None, example\<lparr>n_image := - 1\<rparr>)"
  by (simp add: consume_next_batch example_def py_slice_def slice_bound_def)

text \<open>
  Claim C10, amended. \<open>next_batch\<close> does not validate \<open>batch_size\<close>: for every
  integer \<open>k\<close>, when the cursor is below the length of the index the cursor is set to
  cursor + \<open>k\<close>. With \<open>k = 0\<close> nothing is yielded and the object is unchanged. With
  \<open>k < 0\<close> the cursor decreases, and nothing is yielded when the cursor was negative or
  the new cursor is not negative; when the cursor was not negative and the new cursor is
  negative, the keys visited are those from the position of the cursor up to the position
  length + cursor + \<open>k\<close>, that is, up to -(cursor + \<open>k\<close>) keys before the end of the
  index (none when the index has no more than \<open>-k\<close> keys).
\<close>

theorem next_batch_any_batch_size:
  assumes "getattr_n self n < int (length (getattr_index self index))"
  shows "snd (snd (consume (next_batch self index n mapping (Some k)) self))
           = setattr_n self n (getattr_n self n + k)
         \<and> (k = 0 \<longrightarrow> consume (next_batch self index n mapping (Some k)) self = ([], None, self))
         \<and> (k < 0 \<longrightarrow>
              getattr_n (snd (snd (consume (next_batch self index n mapping (Some k)) self))) n
                < getattr_n self n
              \<and> fst (consume (next_batch self index n mapping (Some k)) self)
                  = fst (drain mapping
                      (if 0 \<le> getattr_n self n \<and> getattr_n self n + k < 0
                       then drop (nat (getattr_n self n))
                              (take (nat (int (length (getattr_index self index))
                                          + getattr_n self n + k))
                                 (getattr_index self index))
                       else [])))"
proof -
  have c: "consume (next_batch self index n mapping (Some k)) self =
        (fst (drain mapping (py_slice (getattr_index self index) (getattr_n self n) (getattr_n self n + k))),
         snd (drain mapping (py_slice (getattr_index self index) (getattr_n self n) (getattr_n self n + k))),
         setattr_n self n (getattr_n self n + k))"
    using assms by (simp add: consume_next_batch)
  have "consume (next_batch self index n mapping (Some k)) self = ([], None, self)" if "k = 0"
    using c that by (simp add: py_slice_same)
  moreover have "fst (consume (next_batch self index n mapping (Some k)) self)
                  = fst (drain mapping
                      (if 0 \<le> getattr_n self n \<and> getattr_n self n + k < 0
                       then drop (nat (getattr_n self n))
                              (take (nat (int (length (getattr_index self index))
                                          + getattr_n self n + k))
                                 (getattr_index self index))
                       else []))" if "k < 0"
  proof -
    have w: "nat (int (length (getattr_index self index)) + getattr_n self n + k)
               - nat (getattr_n self n)
             = nat (int (length (getattr_index self index)) + k)"
      if "0 \<le> getattr_n self n"
      using that by linarith
    show ?thesis
      using c py_slice_backward [OF \<open>k < 0\<close>, of "getattr_index self index" "getattr_n self n"] w
      by (simp add: drop_take)
  qed
  moreover have "getattr_n (snd (snd (consume (next_batch self index n mapping (Some k)) self))) n
                < getattr_n self n" if "k < 0"
    using c that by simp
  ultimately show ?thesis
    using c by simp
qed

theorem next_batch_any_batch_size_witness:
  "getattr_n (example\<lparr>n_profile := 1\<rparr>) N_profile
     < int (length (getattr_index (example\<lparr>n_profile := 1\<rparr>) Profile_index))
   \<and> consume (next_batch (example\<lparr>n_profile := 1\<rparr>) Profile_index N_profile Inr (Some (- 2)))
        (example\<lparr>n_profile := 1\<rparr>)
      = ([[''e'', ''A'', ''2'']], None, example\<lparr>n_profile := - 1\<rparr>)"
proof -
  have h: "getattr_n (example\<lparr>n_profile := 1\<rparr>) N_profile
             < int (length (getattr_index (example\<lparr>n_profile := 1\<rparr>) Profile_index))"
    by (simp add: example_def)
  have r: "fst (snd (consume (next_batch (example\<lparr>n_profile := 1\<rparr>) Profile_index N_profile
                               Inr (Some (- 2)))
          (example\<lparr>n_profile := 1\<rparr>))) = None"
    using h by (simp add: consume_next_batch py_slice_def slice_bound_def example_def)
  have t: "snd (snd (consume (next_batch (example\<lparr>n_profile := 1\<rparr>) Profile_index N_profile
                               Inr (Some (- 2)))
               (example\<lparr>n_profile := 1\<rparr>)))
             = setattr_n (example\<lparr>n_profile := 1\<rparr>) N_profile
                 (getattr_n (example\<lparr>n_profile := 1\<rparr>) N_profile + - 2)"
    and v: "fst (consume (next_batch (example\<lparr>n_profile := 1\<rparr>) Profile_index N_profile
                           Inr (Some (- 2)))
               (example\<lparr>n_profile := 1\<rparr>))
             = fst (drain (Inr :: string list \<Rightarrow> error + string list)
                 (if 0 \<le> getattr_n (example\<lparr>n_profile := 1\<rparr>) N_profile
                     \<and> getattr_n (example\<lparr>n_profile := 1\<rparr>) N_profile + - 2 < 0
                  then drop (nat (getattr_n (example\<lparr>n_profile := 1\<rparr>) N_profile))
                         (take (nat (int (length (getattr_index (example\<lparr>n_profile := 1\<rparr>)
                                                   Profile_index))
                                     + getattr_n (example\<lparr>n_profile := 1\<rparr>) N_profile + - 2))
                            (getattr_index (example\<lparr>n_profile := 1\<rparr>) Profile_index))
                  else []))"
    using next_batch_any_batch_size [OF h, of Inr "- 2"] by simp_all
  have t': "snd (snd (consume (next_batch (example\<lparr>n_profile := 1\<rparr>) Profile_index N_profile
                               Inr (Some (- 2)))
               (example\<lparr>n_profile := 1\<rparr>))) = example\<lparr>n_profile := - 1\<rparr>"
    using t by (simp add: example_def)
  have v': "fst (consume (next_batch (example\<lparr>n_profile := 1\<rparr>) Profile_index N_profile
                           Inr (Some (- 2)))
               (example\<lparr>n_profile := 1\<rparr>)) = [[''e'', ''A'', ''2'']]"
    using v by (simp add: example_def)
  show ?thesis
    using h r t' v'
    by (cases "consume (next_batch (example\<lparr>n_profile := 1\<rparr>) Profile_index N_profile
                           Inr (Some (- 2)))
               (example\<lparr>n_profile := 1\<rparr>)") simp
qed

subsection \<open>Sequences of calls\<close>

lemma call_batch_Image:
  "call_batch str fs self (Image_batch b) =
     (if n_image self < int (length (image_index self))
      then self\<lparr>n_image := n_image self + requested self (Image_batch b)\<rparr> else self)"
  by (cases b) (simp_all add: next_image_batch_def consume_next_batch)

lemma call_batch_Profile:
  "call_batch str fs self (Profile_batch b) =
     (if n_profile self < int (length (profile_index self))
      then self\<lparr>n_profile := n_profile self + requested self (Profile_batch b)\<rparr> else self)"
  by (cases b) (simp_all add: next_profile_batch_def consume_next_batch)

declare call_batch.simps [simp del]

lemma call_batch_index:
  "image_index (call_batch str fs self c) = image_index self"
  "profile_index (call_batch str fs self c) = profile_index self"
  by (cases c; simp add: call_batch_Image call_batch_Profile)+

lemma requested_call_batch:
  "requested (call_batch str fs self c) d = requested self d"
proof (cases d)
  case (Image_batch b)
  then show ?thesis by (cases b) (simp_all add: call_batch_index)
next
  case (Profile_batch b)
  then show ?thesis by (cases b) (simp_all add: call_batch_index)
qed

text \<open>
  Claim C2 has the cursors never exceed the lengths of their indices. On the example, a
  batch of one image followed by a batch of unspecified size leaves the image cursor at
  1 + 2 = 3, past the two keys of the image index.
\<close>

theorem cursor_exceeds_index_length:
  "n_image (call_batches id extracted_fs example [Image_batch (Some 1), Image_batch None]) = 3
   \<and> length (image_index example) = 2"
  by (simp add: call_batches_def call_batch_Image example_def)

text \<open>
  Claim C2, amended. A cursor may pass the length of its index, by less than a batch: for
  every sequence of batch calls that each ask for at most \<open>K\<close> keys (a call of
  unspecified size asks for the size of its index), cursors that are below the length of
  their index plus \<open>K\<close> before the calls, as the zero cursors of a new Dataset are for
  \<open>K \<ge> 1\<close>, are below it after them.
\<close>

theorem cursors_bounded_by_batch_size:
  assumes "\<forall>c \<in> set calls. requested self c \<le> K"
    and "n_image self < int (length (image_index self)) + K"
    and "n_profile self < int (length (profile_index self)) + K"
  shows "n_image (call_batches str fs self calls) < int (length (image_index self)) + K
         \<and> n_profile (call_batches str fs self calls) < int (length (profile_index self)) + K"
  using assms
proof (induction calls arbitrary: self)
  case Nil
  then show ?case by (simp add: call_batches_def)
next
  case (Cons c calls)
  let ?s = "call_batch str fs self c"
  have r: "requested self c \<le> K" using Cons.prems(1) by simp
  have a: "\<forall>d \<in> set calls. requested ?s d \<le> K"
    using Cons.prems(1) by (simp add: requested_call_batch)
  have b: "n_image ?s < int (length (image_index ?s)) + K"
    using Cons.prems(2) r by (cases c) (auto simp: call_batch_Image call_batch_Profile)
  have d: "n_profile ?s < int (length (profile_index ?s)) + K"
    using Cons.prems(3) r by (cases c) (auto simp: call_batch_Image call_batch_Profile)
  from Cons.IH [OF a b d] show ?case
    by (simp add: call_batches_def call_batch_index)
qed

theorem cursors_bounded_by_batch_size_witness:
  "n_image example < int (length (image_index example)) + 3
   \<and> n_profile example < int (length (profile_index example)) + 3
   \<and> n_image (call_batches id extracted_fs example
                 [Image_batch (Some 1), Image_batch None, Profile_batch (Some 3)])
       < int (length (image_index example)) + 3
   \<and> n_profile (call_batches id extracted_fs example
                   [Image_batch (Some 1), Image_batch None, Profile_batch (Some 3)])
       < int (length (profile_index example)) + 3"
proof -
  have h1: "\<forall>c \<in> set [Image_batch (Some 1), Image_batch None, Profile_batch (Some 3)].
              requested example c \<le> 3"
    by (simp add: example_def)
  have h2: "n_image example < int (length (image_index example)) + 3"
    by (simp add: example_def)
  have h3: "n_profile example < int (length (profile_index example)) + 3"
    by (simp add: example_def)
  show ?thesis
    using h2 h3 cursors_bounded_by_batch_size [OF h1 h2 h3, of id extracted_fs] by simp
qed


declare chunk.simps [simp del]
declare batches.simps [simp del]

subsection \<open>Batches until the index is exhausted\<close>

lemma concat_chunk: "0 < k \<Longrightarrow> concat (chunk k xs) = xs"
proof (induction k xs rule: chunk.induct)
  case (1 k xs)
  show ?case
  proof (cases "xs = []")
    case True
    then show ?thesis by (simp add: chunk.simps)
  next
    case False
    with 1 show ?thesis by (subst chunk.simps) simp
  qed
qed

lemma batches_chunk:
  assumes "1 \<le> k"
    and "\<forall>key \<in> set (getattr_index self index). mapping key = Inr (f key)"
    and "0 \<le> getattr_n self n"
  shows "batches self index n mapping k
           = chunk (nat k) (map f (drop (nat (getattr_n self n)) (getattr_index self index)))"
  using assms(2,3)
proof (induction "nat (int (length (getattr_index self index)) - getattr_n self n)"
        arbitrary: self rule: less_induct)
  case less
  let ?c = "getattr_n self n" and ?idx = "getattr_index self index"
  show ?case
  proof (cases "?c < int (length ?idx)")
    case False
    then have "drop (nat ?c) ?idx = []" by simp
    moreover have "batches self index n mapping k = []"
      using False by (subst batches.simps) (simp add: consume_next_batch)
    ultimately show ?thesis by (simp add: chunk.simps)
  next
    case True
    let ?keys = "take (nat k) (drop (nat ?c) ?idx)"
    let ?self' = "setattr_n self n (?c + k)"
    have sl: "py_slice ?idx ?c (?c + k) = ?keys"
      using less.prems(2) assms(1) by (simp add: py_slice_forward)
    have "\<forall>key \<in> set ?keys. mapping key = Inr (f key)"
      using less.prems(1) by (meson in_set_dropD in_set_takeD)
    then have dr: "drain mapping ?keys = (map f ?keys, None)"
      by (rule drain_total)
    have ne: "?keys \<noteq> []"
      using True assms(1) less.prems(2) by simp
    have step: "batches self index n mapping k = map f ?keys # batches ?self' index n mapping k"
      using True sl dr ne by (subst batches.simps) (simp add: consume_next_batch)
    have "batches ?self' index n mapping k
            = chunk (nat k) (map f (drop (nat (getattr_n ?self' n)) (getattr_index ?self' index)))"
      using True assms(1) less.prems by (intro less.hyps) simp_all
    moreover have "drop (nat (?c + k)) ?idx = drop (nat k) (drop (nat ?c) ?idx)"
      using assms(1) less.prems(2) by (simp add: nat_add_distrib add.commute)
    ultimately have rest: "batches ?self' index n mapping k
            = chunk (nat k) (drop (nat k) (map f (drop (nat ?c) ?idx)))"
      by (simp add: drop_map)
    have "chunk (nat k) (map f (drop (nat ?c) ?idx))
            = take (nat k) (map f (drop (nat ?c) ?idx))
                # chunk (nat k) (drop (nat k) (map f (drop (nat ?c) ?idx)))"
      using True assms(1) less.prems(2) by (subst chunk.simps) simp
    then show ?thesis
      using step rest by (simp add: take_map)
  qed
qed

text \<open>
  Claim C5 speaks of every Dataset. On the example after one profile batch of size 1
  (profile cursor 1), batches of size 2 taken until one is empty give the last two keys
  only, where a single call of unspecified size on a new Dataset gives all three.
\<close>

theorem batches_from_advanced_cursor:
  "snd (snd (consume (next_batch example Profile_index N_profile Inr (Some 1)) example))
     = example\<lparr>n_profile := 1\<rparr>
   \<and> batches (example\<lparr>n_profile := 1\<rparr>) Profile_index N_profile Inr 2
       = [[[''e'', ''A'', ''2''], [''e'', ''B'', ''1'']]]
   \<and> fst (consume (next_batch example Profile_index N_profile Inr None) example)
       = [[''e'', ''A'', ''1''], [''e'', ''A'', ''2''], [''e'', ''B'', ''1'']]"
proof -
  have a: "snd (snd (consume (next_batch example Profile_index N_profile Inr (Some 1)) example))
             = example\<lparr>n_profile := 1\<rparr>"
    by (simp add: consume_next_batch example_def)
  have b: "batches (example\<lparr>n_profile := 1\<rparr>) Profile_index N_profile Inr 2
             = [[[''e'', ''A'', ''2''], [''e'', ''B'', ''1'']]]"
    by code_simp
  have c: "fst (consume (next_batch example Profile_index N_profile Inr None) example)
             = [[''e'', ''A'', ''1''], [''e'', ''A'', ''2''], [''e'', ''B'', ''1'']]"
    by (simp add: consume_next_batch example_def py_slice_def slice_bound_def)
  show ?thesis
    using a b c by blast
qed

text \<open>
  Claim C5, amended. For every Dataset whose cursor \<open>c\<close> is not negative, every batch
  size \<open>k \<ge> 1\<close> and a mapping that raises on no key of the index, asking for batches
  of size \<open>k\<close> until one is empty gives, the batches put end to end, the elements that
  a single call of unspecified size on a new Dataset with the same index (cursor zero)
  yields, which are those of the whole index in order, from position \<open>c\<close> on: all of
  them when the batches start on a new Dataset. The batches are that sequence cut into
  consecutive pieces of \<open>k\<close>.
\<close>

theorem batches_partition_index:
  assumes "1 \<le> k"
    and "0 \<le> getattr_n self n"
    and "\<forall>key \<in> set (getattr_index self index). mapping key = Inr (f key)"
  shows "concat (batches self index n mapping k)
           = drop (nat (getattr_n self n))
               (fst (consume (next_batch (setattr_n self n 0) index n mapping None)
                      (setattr_n self n 0)))
         \<and> fst (consume (next_batch (setattr_n self n 0) index n mapping None)
                 (setattr_n self n 0))
             = map f (getattr_index self index)
         \<and> batches self index n mapping k
             = chunk (nat k) (drop (nat (getattr_n self n)) (map f (getattr_index self index)))"
proof -
  let ?idx = "getattr_index self index"
  have whole: "fst (consume (next_batch (setattr_n self n 0) index n mapping None)
                 (setattr_n self n 0)) = map f ?idx"
  proof (cases "?idx = []")
    case True
    then show ?thesis by (simp add: consume_next_batch)
  next
    case False
    have "py_slice ?idx 0 (0 + int (length ?idx)) = take (nat (int (length ?idx))) (drop (nat 0) ?idx)"
      by (rule py_slice_forward) simp_all
    then have "py_slice ?idx 0 (int (length ?idx)) = ?idx" by simp
    then show ?thesis
      using False drain_total [OF assms(3)] by (simp add: consume_next_batch)
  qed
  have b: "batches self index n mapping k
             = chunk (nat k) (drop (nat (getattr_n self n)) (map f ?idx))"
    using batches_chunk [OF assms(1) assms(3) assms(2)] by (simp add: drop_map)
  have "concat (batches self index n mapping k) = drop (nat (getattr_n self n)) (map f ?idx)"
    using assms(1) by (simp add: b concat_chunk)
  then show ?thesis
    using whole b by simp
qed

theorem batches_partition_index_witness:
  "(1::int) \<le> 2
   \<and> 0 \<le> getattr_n example N_profile
   \<and> batches example Profile_index N_profile Inr 2
       = [[[''e'', ''A'', ''1''], [''e'', ''A'', ''2'']], [[''e'', ''B'', ''1'']]]
   \<and> fst (consume (next_batch (setattr_n example N_profile 0) Profile_index N_profile Inr None)
            (setattr_n example N_profile 0))
       = [[''e'', ''A'', ''1''], [''e'', ''A'', ''2''], [''e'', ''B'', ''1'']]"
proof -
  have h1: "(1::int) \<le> 2" by simp
  have h2: "0 \<le> getattr_n example N_profile" by (simp add: example_def)
  have h3: "\<forall>key \<in> set (getattr_index example Profile_index).
              Inr key = (Inr (id key) :: error + string list)"
    by simp
  have c: "chunk (nat 2) (drop (nat (getattr_n example N_profile))
             (map id (getattr_index example Profile_index)))
           = [[[''e'', ''A'', ''1''], [''e'', ''A'', ''2'']], [[''e'', ''B'', ''1'']]]"
    by (simp add: example_def chunk.simps)
  show ?thesis
    using h1 h2 c batches_partition_index [OF h1 h2 h3] by (simp add: example_def)
qed

subsection \<open>Generators\<close>

lemma image_mapping_cursor [simp]:
  "image_mapping str fs (self\<lparr>n_image := v\<rparr>) = image_mapping str fs self"
  by (rule ext) (simp add: image_mapping_def cong: sum.case_cong)

lemma profile_mapping_cursor [simp]:
  "profile_mapping str fs (self\<lparr>n_profile := v\<rparr>) = profile_mapping str fs self"
  by (rule ext) (simp add: profile_mapping_def cong: sum.case_cong)

text \<open>
  Claim C9 has two calls made before either result is consumed both start from the same
  cursor position. On the example, two generators for one image each are made before any
  is run; the first run then starts at key \<open>A\<close>, and the second, run after it, starts at
  key \<open>B\<close>: the cursor is read when the body starts, not when the call is made.
\<close>

theorem two_generators_start_apart:
  "map fst (fst (consume (next_image_batch id extracted_fs example (Some 1)) example))
     = [[''e'', ''A'']]
   \<and> map fst (fst (consume (next_image_batch id extracted_fs example (Some 1))
                     (snd (snd (consume (next_image_batch id extracted_fs example (Some 1))
                                  example)))))
     = [[''e'', ''B'']]"
  by code_simp

text \<open>
  Claim C9, amended. \<open>next_image_batch\<close> and \<open>next_profile_batch\<close> return a
  generator whose body has not run: the call gives back the generator alone and changes
  nothing of the Dataset. The cursor is read and advanced when the generator is first
  consumed: the first \<open>next\<close>, with the cursor below the length of the index, sets it to
  cursor + batch size. Of two generators made before either is consumed, the one consumed
  second does what a generator made after the first was consumed does: it starts at the
  cursor the first one left.
\<close>

theorem generator_reads_cursor_when_consumed:
  "(n_image self < int (length (image_index self)) \<longrightarrow>
      snd (snd (gen_next (next_image_batch str fs self b1) self))
        = self\<lparr>n_image := n_image self + requested self (Image_batch b1)\<rparr>)
   \<and> (n_profile self < int (length (profile_index self)) \<longrightarrow>
      snd (snd (gen_next (next_profile_batch str fs self b1) self))
        = self\<lparr>n_profile := n_profile self + requested self (Profile_batch b1)\<rparr>)
   \<and> consume (next_image_batch str fs self b2)
         (snd (snd (consume (next_image_batch str fs self b1) self)))
       = consume (next_image_batch str fs
                    (snd (snd (consume (next_image_batch str fs self b1) self))) b2)
           (snd (snd (consume (next_image_batch str fs self b1) self)))
   \<and> consume (next_profile_batch str fs self b2)
         (snd (snd (consume (next_profile_batch str fs self b1) self)))
       = consume (next_profile_batch str fs
                    (snd (snd (consume (next_profile_batch str fs self b1) self))) b2)
           (snd (snd (consume (next_profile_batch str fs self b1) self)))"
proof -
  have i: "snd (snd (gen_next (next_image_batch str fs self b1) self))
        = self\<lparr>n_image := n_image self + requested self (Image_batch b1)\<rparr>"
    if "n_image self < int (length (image_index self))"
    using that
    by (cases b1; cases "py_slice (image_index self) (n_image self) (n_image self + requested self (Image_batch b1))")
       (auto simp: next_image_batch_def next_batch_def next_batch_start_def Let_def split: sum.splits)
  have p: "snd (snd (gen_next (next_profile_batch str fs self b1) self))
        = self\<lparr>n_profile := n_profile self + requested self (Profile_batch b1)\<rparr>"
    if "n_profile self < int (length (profile_index self))"
    using that
    by (cases b1; cases "py_slice (profile_index self) (n_profile self) (n_profile self + requested self (Profile_batch b1))")
       (auto simp: next_profile_batch_def next_batch_def next_batch_start_def Let_def split: sum.splits)
  have gi: "next_image_batch str fs (snd (snd (consume (next_image_batch str fs self b1) self))) b2
            = next_image_batch str fs self b2"
    by (simp add: next_image_batch_def consume_next_batch) (simp add: next_batch_def)
  have gp: "next_profile_batch str fs (snd (snd (consume (next_profile_batch str fs self b1) self))) b2
            = next_profile_batch str fs self b2"
    by (simp add: next_profile_batch_def consume_next_batch) (simp add: next_batch_def)
  show ?thesis
    using i p by (simp only: gi gp) simp
qed

theorem generator_reads_cursor_when_consumed_witness:
  "n_image example < int (length (image_index example))
   \<and> n_profile example < int (length (profile_index example))
   \<and> snd (snd (gen_next (next_image_batch id extracted_fs example (Some 1)) example))
       = example\<lparr>n_image := 1\<rparr>
   \<and> snd (snd (gen_next (next_profile_batch id extracted_fs example None) example))
       = example\<lparr>n_profile := 3\<rparr>"
proof -
  have h1: "n_image example < int (length (image_index example))"
    by (simp add: example_def)
  have h2: "n_profile example < int (length (profile_index example))"
    by (simp add: example_def)
  have z: "n_image example = 0" "n_profile example = 0"
          "int (length (profile_index example)) = 3"
    by (simp_all add: example_def)
  have "snd (snd (gen_next (next_image_batch id extracted_fs example (Some 1)) example))
          = example\<lparr>n_image := n_image example + requested example (Image_batch (Some 1))\<rparr>"
    using h1 generator_reads_cursor_when_consumed [of example id extracted_fs "Some 1" "Some 1"]
    by blast
  moreover
  have "snd (snd (gen_next (next_profile_batch id extracted_fs example None) example))
          = example\<lparr>n_profile := n_profile example + requested example (Profile_batch None)\<rparr>"
    using h2 generator_reads_cursor_when_consumed [of example id extracted_fs None None]
    by blast
  ultimately show ?thesis
    using h1 h2 z by simp
qed

subsection \<open>The indices\<close>

lemma set_unique_from: "set (unique_from seen xs) = set xs - set seen"
  by (induction xs arbitrary: seen) auto

lemma distinct_unique_from: "distinct (unique_from seen xs)"
  by (induction xs arbitrary: seen) (auto simp: set_unique_from)

lemma set_unique: "set (unique xs) = set xs"
  by (simp add: unique_def set_unique_from)

lemma distinct_unique: "distinct (unique xs)"
  by (simp add: unique_def distinct_unique_from)

lemma length_unique: "length (unique xs) = card (set xs)"
  using distinct_card [OF distinct_unique, of xs] by (simp add: set_unique)

lemma unique_from_map:
  "f ` set seen \<subseteq> set seen' \<Longrightarrow>
     unique_from seen' (map f (unique_from seen xs)) = unique_from seen' (map f xs)"
proof (induction xs arbitrary: seen seen')
  case Nil
  show ?case by simp
next
  case (Cons x xs)
  show ?case
  proof (cases "x \<in> set seen")
    case True
    then have "f x \<in> set seen'" using Cons.prems by auto
    with True Cons show ?thesis by simp
  next
    case False
    show ?thesis
    proof (cases "f x \<in> set seen'")
      case True
      have "f ` set (x # seen) \<subseteq> set seen'" using True Cons.prems by auto
      from Cons.IH [OF this] True False show ?thesis by simp
    next
      case nf: False
      have "f ` set (x # seen) \<subseteq> set (f x # seen')" using Cons.prems by auto
      from Cons.IH [OF this] nf False show ?thesis by simp
    qed
  qed
qed

lemma unique_map_unique: "unique (map f (unique xs)) = unique (map f xs)"
  by (simp add: unique_def unique_from_map)

lemma one_each_inj_on:
  assumes "distinct ps"
  shows "(\<forall>y \<in> f ` set ps. length (filter (\<lambda>p. f p = y) ps) = 1) \<longleftrightarrow> inj_on f (set ps)"
proof
  assume one: "\<forall>y \<in> f ` set ps. length (filter (\<lambda>p. f p = y) ps) = 1"
  show "inj_on f (set ps)"
  proof (rule inj_onI)
    fix a b
    assume ab: "a \<in> set ps" "b \<in> set ps" "f a = f b"
    have "card {p \<in> set ps. f p = f a} = 1"
      using one ab(1) distinct_length_filter [OF assms, of "\<lambda>p. f p = f a"]
      by (simp add: Collect_conj_eq Int_commute)
    then obtain c where c: "{p \<in> set ps. f p = f a} = {c}"
      by (auto simp: card_1_singleton_iff)
    have "a \<in> {p \<in> set ps. f p = f a}" "b \<in> {p \<in> set ps. f p = f a}"
      using ab by simp_all
    then have "a \<in> {c}" "b \<in> {c}"
      unfolding c by simp_all
    then show "a = b" by simp
  qed
next
  assume inj: "inj_on f (set ps)"
  show "\<forall>y \<in> f ` set ps. length (filter (\<lambda>p. f p = y) ps) = 1"
  proof
    fix y
    assume "y \<in> f ` set ps"
    then obtain a where a: "a \<in> set ps" "y = f a" by auto
    have "{p \<in> set ps. f p = y} = {a}"
      using a inj by (auto dest: inj_onD)
    then show "length (filter (\<lambda>p. f p = y) ps) = 1"
      using distinct_length_filter [OF assms, of "\<lambda>p. f p = y"]
      by (simp add: Collect_conj_eq Int_commute)
  qed
qed

lemma Dataset_init_indices:
  assumes "Dataset_init fs sample archive' storing_path' force_decompress shuffle = (fs', Inr self)"
  shows "\<exists>keys. profile_index self = unique keys
           \<and> image_index self
               = unique (map (drop_nth (level_number ''fiber'' (level_names (summary self)))) keys)"
  using assms
  by (auto simp: Dataset_init_def Let_def droplevel_def sort_index_def
           split: prod.splits sum.splits if_splits)

text \<open>
  Claim C6. On every Dataset the constructor returns, whatever the draw of the shuffle,
  the image index is the profile index with the fibre label dropped from each key,
  duplicates removed, in the order of first occurrence. So it is no longer than the
  profile index, and as long exactly when each image has one fibre: each key of the
  image index is the projection of exactly one key of the profile index.
\<close>

theorem image_index_projection:
  assumes "Dataset_init fs sample archive' storing_path' force_decompress shuffle = (fs', Inr self)"
    and "i = level_number ''fiber'' (level_names (summary self))"
  shows "image_index self = unique (map (drop_nth i) (profile_index self))
         \<and> length (image_index self) \<le> length (profile_index self)
         \<and> (length (image_index self) = length (profile_index self) \<longleftrightarrow>
              (\<forall>key \<in> set (image_index self).
                 length (filter (\<lambda>p. drop_nth i p = key) (profile_index self)) = 1))"
proof -
  obtain keys where k: "profile_index self = unique keys"
      "image_index self = unique (map (drop_nth i) keys)"
    using Dataset_init_indices [OF assms(1)] assms(2) by auto
  have proj: "image_index self = unique (map (drop_nth i) (profile_index self))"
    using k by (simp add: unique_map_unique)
  have d: "distinct (profile_index self)"
    using k by (simp add: distinct_unique)
  have li: "length (image_index self) = card (drop_nth i ` set (profile_index self))"
    by (subst proj) (simp add: length_unique)
  have lp: "length (profile_index self) = card (set (profile_index self))"
    using d by (simp add: distinct_card)
  have le: "length (image_index self) \<le> length (profile_index self)"
    unfolding li lp by (rule card_image_le) simp
  have si: "set (image_index self) = drop_nth i ` set (profile_index self)"
    by (subst proj) (simp add: set_unique)
  have "length (image_index self) = length (profile_index self)
          \<longleftrightarrow> inj_on (drop_nth i) (set (profile_index self))"
    unfolding li lp by (metis List.finite_set inj_on_iff_eq_card)
  then have eq: "length (image_index self) = length (profile_index self) \<longleftrightarrow>
              (\<forall>key \<in> set (image_index self).
                 length (filter (\<lambda>p. drop_nth i p = key) (profile_index self)) = 1)"
    using one_each_inj_on [OF d, of "drop_nth i"] si by simp
  show ?thesis
    using proj le eq by blast
qed

theorem image_index_projection_witness:
  "Dataset_init example_fs id ''/data/set.zip'' ''/tmp'' False False = (extracted_fs, Inr example)
   \<and> image_index example = unique (map (drop_nth 2) (profile_index example))
   \<and> length (image_index example) \<le> length (profile_index example)"
proof -
  have h: "Dataset_init example_fs id ''/data/set.zip'' ''/tmp'' False False
             = (extracted_fs, Inr example)"
    by (rule example_init)
  have i: "2 = level_number ''fiber'' (level_names (summary example))"
    by (simp add: example_def sort_index_def example_table_def level_number_def)
  show ?thesis
    using h image_index_projection [OF h i] by blast
qed

subsection \<open>Paths and the file system\<close>

lemma split_path_not_Nil [simp]: "split_path p \<noteq> []"
  by (induction p) (auto split: list.splits)

lemma split_path_append_sep:
  "split_path (a @ CHR ''/'' # b) = split_path a @ split_path b"
  by (induction a) (auto split: list.splits)

lemma split_path_plain: "CHR ''/'' \<notin> set s \<Longrightarrow> split_path s = [s]"
  by (induction s) auto

lemma resolve_append_sep:
  "resolve (a @ CHR ''/'' # b) = foldl walk (resolve a) (split_path b)"
  by (simp add: resolve_def split_path_append_sep)

lemma resolve_trailing_sep: "resolve (a @ ''/'') = resolve a"
  using resolve_append_sep [of a "[]"] by (simp add: walk_def)

lemma resolve_join_plain:
  assumes "CHR ''/'' \<notin> set s" and "s \<noteq> []" and "d \<noteq> []"
  shows "resolve (join d s) = walk (resolve d) s"
proof (cases "last d = CHR ''/''")
  case True
  then obtain d' where d': "d = d' @ ''/''"
    using assms(3) by (metis append_butlast_last_id)
  have "join d s = d' @ CHR ''/'' # s"
    using assms d' by (cases s) (auto simp: join_def)
  then show ?thesis
    using assms(1) d' by (simp add: resolve_append_sep resolve_trailing_sep split_path_plain walk_def)
next
  case False
  have "join d s = d @ CHR ''/'' # s"
    using assms False by (cases s) (auto simp: join_def)
  then show ?thesis
    using assms(1) by (simp add: resolve_append_sep split_path_plain)
qed



lemma read_file_Inr:
  "read_file fs p = Inr e \<Longrightarrow> map_of fs (resolve p) = Some e"
  by (cases "map_of fs (resolve p)") (auto simp: read_file_def split: if_splits entry.splits)

lemma read_file_exists_parent:
  assumes "read_file fs (join d ''summary.csv'') = Inr e" and "d \<noteq> []"
  shows "path_exists fs d"
proof -
  have "walk (resolve d) ''summary.csv'' = resolve d @ [''summary.csv'']"
    by (simp add: walk_def)
  then have r: "resolve (join d ''summary.csv'') = resolve d @ [''summary.csv'']"
    using resolve_join_plain [of "''summary.csv''" d] assms(2) by simp
  have "map_of fs (resolve d @ [''summary.csv'']) = Some e"
    using read_file_Inr [OF assms(1)] r by simp
  then have "(resolve d @ [''summary.csv''], e) \<in> set fs"
    by (rule map_of_SomeD)
  then have m: "resolve d @ [''summary.csv''] \<in> set (map fst fs)"
    by force
  have "below (resolve d) (resolve d @ [''summary.csv''])"
    by (simp add: below_def)
  then have "is_dir fs (resolve d)"
    using m unfolding is_dir_def by blast
  then show ?thesis
    using assms(2) by (simp add: path_exists_def)
qed


lemma fst_if_pair_empty:
  "fst (if A \<and> (\<exists>c \<in> set s. Q c) then (d @ s, e) else (p, [])) = [] \<Longrightarrow> p = []"
  by (cases s) (simp_all split: if_splits)

lemma splitext_empty:
  assumes "fst (splitext p) = []"
  shows "p = []"
  using assms unfolding splitext_def Let_def
  by (rule fst_if_pair_empty)

lemma basename_empty: "basename p = [] \<Longrightarrow> p = [] \<or> last p = CHR ''/''"
proof -
  assume "basename p = []"
  then have t: "takeWhile (\<lambda>c. c \<noteq> CHR ''/'') (rev p) = []"
    by (simp add: basename_def)
  show ?thesis
  proof (cases p rule: rev_cases)
    case Nil
    then show ?thesis by simp
  next
    case (snoc cs c)
    with t show ?thesis by (simp split: if_splits)
  qed
qed

lemma join_empty: "join a b = [] \<Longrightarrow> a = [] \<and> b = []"
  by (simp add: join_def split: if_splits)

lemma open_zip_no_file: "p = [] \<or> last p = CHR ''/'' \<Longrightarrow> \<exists>e. open_zip fs p = Inl e"
  by (cases "p = []") (simp_all add: open_zip_def read_file_def)

lemma decompress_dataset_path:
  assumes "decompress fs archive' storing_path' = (fs', Inr u)"
  shows "join storing_path' (fst (splitext (basename archive'))) \<noteq> []"
proof
  assume "join storing_path' (fst (splitext (basename archive'))) = []"
  then have "storing_path' = [] \<and> fst (splitext (basename archive')) = []"
    by (rule join_empty)
  then have "fst (splitext (basename archive')) = []" ..
  then have "basename archive' = []"
    by (rule splitext_empty)
  then have "archive' = [] \<or> last archive' = CHR ''/''"
    by (rule basename_empty)
  then have "\<exists>e. open_zip fs archive' = Inl e"
    by (rule open_zip_no_file)
  then obtain e where "open_zip fs archive' = Inl e" ..
  with assms show False by (simp add: decompress_def)
qed

subsection \<open>The constructor\<close>

lemma Dataset_init_same_extraction:
  assumes "(if force \<or> \<not> path_exists fs (join storing_path' (fst (splitext (basename archive'))))
            then decompress fs archive' storing_path' else (fs, Inr ()))
         = (if force2 \<or> \<not> path_exists fs2 (join storing_path' (fst (splitext (basename archive'))))
            then decompress fs2 archive' storing_path' else (fs2, Inr ()))"
  shows "Dataset_init fs sample archive' storing_path' force shuffle
           = Dataset_init fs2 sample archive' storing_path' force2 shuffle"
  unfolding Dataset_init_def Let_def assms by (rule refl)

lemma fst_Dataset_init:
  "fst (Dataset_init fs sample archive' storing_path' force shuffle)
     = fst (if force \<or> \<not> path_exists fs (join storing_path' (fst (splitext (basename archive'))))
            then decompress fs archive' storing_path' else (fs, Inr ()))"
proof -
  obtain fs1 r where st:
    "(if force \<or> \<not> path_exists fs (join storing_path' (fst (splitext (basename archive'))))
      then decompress fs archive' storing_path' else (fs, Inr ())) = (fs1, r)"
    by (cases "if force \<or> \<not> path_exists fs (join storing_path' (fst (splitext (basename archive'))))
      then decompress fs archive' storing_path' else (fs, Inr ())") blast
  show ?thesis
    unfolding Dataset_init_def Let_def st
    by (simp split: sum.splits)
qed

lemma Dataset_init_Inr:
  assumes "Dataset_init fs sample archive' storing_path' force shuffle = (fs', Inr self)"
  shows "(if force \<or> \<not> path_exists fs (join storing_path' (fst (splitext (basename archive'))))
          then decompress fs archive' storing_path' else (fs, Inr ())) = (fs', Inr ())
         \<and> (\<exists>fr. read_csv fs' (join (join storing_path' (fst (splitext (basename archive'))))
                                ''summary.csv'') = Inr fr)
         \<and> dataset_path self = join storing_path' (fst (splitext (basename archive')))"
proof -
  obtain fs1 r where st:
    "(if force \<or> \<not> path_exists fs (join storing_path' (fst (splitext (basename archive'))))
      then decompress fs archive' storing_path' else (fs, Inr ())) = (fs1, r)"
    by (cases "if force \<or> \<not> path_exists fs (join storing_path' (fst (splitext (basename archive'))))
      then decompress fs archive' storing_path' else (fs, Inr ())") blast
  have a: "(case (fs1, r) of
           (fs', Inl e) \<Rightarrow> (fs', Inl e)
         | (fs', Inr _) \<Rightarrow>
             (case read_csv fs' (join (join storing_path' (fst (splitext (basename archive')))) ''summary.csv'') of
                Inl e \<Rightarrow> (fs', Inl e)
              | Inr fr \<Rightarrow>
                  (case droplevel ''fiber''
                          (level_names
                            (if shuffle then sort_index fr\<lparr>rows := sample (rows (sort_index fr))\<rparr>
                             else sort_index fr))
                          (frame_index
                            (if shuffle then sort_index fr\<lparr>rows := sample (rows (sort_index fr))\<rparr>
                             else sort_index fr)) of
                        Inl e \<Rightarrow> (fs', Inl e)
                      | Inr keys \<Rightarrow>
                          (fs', Inr \<lparr>archive = archive',
                                     storing_path = storing_path',
                                     dataset_path = join storing_path' (fst (splitext (basename archive'))),
                                     summary = sort_index fr,
                                     image_index = unique keys,
                                     profile_index = unique (frame_index
                            (if shuffle then sort_index fr\<lparr>rows := sample (rows (sort_index fr))\<rparr>
                             else sort_index fr)),
                                     n_image = 0,
                                     n_profile = 0\<rparr>)))) = (fs', Inr self)"
    using assms unfolding Dataset_init_def Let_def st .
  show ?thesis
  proof (cases r)
    case (Inl e)
    with a show ?thesis by simp
  next
    case (Inr u)
    with a have "fs1 = fs'"
      by (simp split: sum.splits)
    moreover from a Inr have "\<exists>fr. read_csv fs' (join (join storing_path' (fst (splitext (basename archive'))))
                                ''summary.csv'') = Inr fr"
      by (simp split: sum.splits)
    moreover from a Inr have "dataset_path self = join storing_path' (fst (splitext (basename archive')))"
      by (auto split: sum.splits)
    ultimately show ?thesis
      using st Inr by simp
  qed
qed

text \<open>
  Claim C8. When a Dataset has been constructed with \<open>force_decompress\<close> false, the
  directory of the dataset exists, so a second construction from the same archive and
  storing path, again with \<open>force_decompress\<close> false, performs no extraction: it leaves
  the file system as the first construction left it (and returns the same Dataset, for
  the same draw of the shuffle).
\<close>

theorem second_construction_no_extraction:
  assumes "Dataset_init fs sample archive' storing_path' False shuffle = (fs', Inr self)"
  shows "path_exists fs' (dataset_path self)
         \<and> Dataset_init fs' sample archive' storing_path' False shuffle = (fs', Inr self)"
proof -
  let ?d = "join storing_path' (fst (splitext (basename archive')))"
  from Dataset_init_Inr [OF assms]
  obtain fr where first: "(if False \<or> \<not> path_exists fs ?d
                             then decompress fs archive' storing_path' else (fs, Inr ()))
                          = (fs', Inr ())"
    and csv: "read_csv fs' (join ?d ''summary.csv'') = Inr fr"
    and dp: "dataset_path self = ?d"
    by blast
  have ne: "?d \<noteq> []"
  proof (cases "path_exists fs ?d")
    case True
    then show ?thesis by (auto simp: path_exists_def)
  next
    case False
    with first have "decompress fs archive' storing_path' = (fs', Inr ())" by simp
    then show ?thesis by (rule decompress_dataset_path)
  qed
  obtain e where "read_file fs' (join ?d ''summary.csv'') = Inr e"
    using csv by (cases "read_file fs' (join ?d ''summary.csv'')") (simp_all add: read_csv_def)
  then have ex: "path_exists fs' ?d"
    using ne by (rule read_file_exists_parent)
  have "(if False \<or> \<not> path_exists fs' ?d
         then decompress fs' archive' storing_path' else (fs', Inr ())) = (fs', Inr ())"
    using ex by simp
  with first have "Dataset_init fs sample archive' storing_path' False shuffle
                   = Dataset_init fs' sample archive' storing_path' False shuffle"
    by (intro Dataset_init_same_extraction) simp
  then show ?thesis
    using assms ex dp by simp
qed

theorem second_construction_no_extraction_witness:
  "Dataset_init example_fs id ''/data/set.zip'' ''/tmp'' False False = (extracted_fs, Inr example)
   \<and> path_exists extracted_fs (dataset_path example)
   \<and> Dataset_init extracted_fs id ''/data/set.zip'' ''/tmp'' False False
       = (extracted_fs, Inr example)"
proof -
  have h: "Dataset_init example_fs id ''/data/set.zip'' ''/tmp'' False False
             = (extracted_fs, Inr example)"
    by (rule example_init)
  show ?thesis
    using h second_construction_no_extraction [OF h] by blast
qed

subsection \<open>Extraction\<close>

lemma map_of_put: "map_of (put fs loc e) q = (if q = loc then Some e else map_of fs q)"
proof (cases "loc \<in> set (map fst fs)")
  case True
  have "map_of (map (\<lambda>(k, x). if k = loc then (k, e) else (k, x)) fs) q
          = (if q = loc then (if loc \<in> set (map fst fs) then Some e else None) else map_of fs q)"
    by (induction fs) (force split: if_splits)+
  with True show ?thesis by (simp add: put_def)
next
  case False
  then have "map_of fs loc = None"
    by (simp add: map_of_eq_None_iff)
  with False show ?thesis
    by (cases "map_of fs q") (auto simp: put_def map_add_def)
qed

lemma keys_put: "fst ` set (put fs loc e) = insert loc (fst ` set fs)"
proof (cases "loc \<in> set (map fst fs)")
  case True
  have "map fst (map (\<lambda>(k, x). if k = loc then (k, e) else (k, x)) fs) = map fst fs"
    by (induction fs) auto
  then have "fst ` set (map (\<lambda>(k, x). if k = loc then (k, e) else (k, x)) fs) = fst ` set fs"
    by (metis set_map)
  with True show ?thesis by (auto simp: put_def)
next
  case False
  then show ?thesis by (simp add: put_def)
qed

lemma extract_member_cases:
  assumes "extract_member fs target m = Inr fs1"
  shows "fs1 = fs \<and> snd m = Directory \<and> is_dir fs (target @ member_names (fst m))
         \<or> fs1 = put fs (target @ member_names (fst m)) (snd m)
             \<and> (snd m \<noteq> Directory \<longrightarrow> \<not> is_dir fs (target @ member_names (fst m)))"
  using assms
  by (cases "snd m") (simp_all add: extract_member_def Let_def split: if_splits)

lemma extract_member_other:
  assumes "extract_member fs target m = Inr fs1" and "q \<noteq> target @ member_names (fst m)"
  shows "map_of fs1 q = map_of fs q"
  using extract_member_cases [OF assms(1)] assms(2) by (auto simp: map_of_put)

lemma extract_member_file:
  assumes "extract_member fs target m = Inr fs1" and "snd m \<noteq> Directory"
  shows "map_of fs1 (target @ member_names (fst m)) = Some (snd m)"
  using extract_member_cases [OF assms(1)] assms(2) by (auto simp: map_of_put)

lemma extract_member_is_dir:
  assumes "extract_member fs target m = Inr fs1" and "is_dir fs q"
  shows "is_dir fs1 q"
proof -
  let ?loc = "target @ member_names (fst m)"
  from extract_member_cases [OF assms(1)]
  consider "fs1 = fs"
    | "fs1 = put fs ?loc (snd m)" "snd m \<noteq> Directory \<longrightarrow> \<not> is_dir fs ?loc"
    by blast
  then show ?thesis
  proof cases
    case 1
    with assms(2) show ?thesis by simp
  next
    case 2
    from assms(2) consider "q = []" | "map_of fs q = Some Directory"
      | "\<exists>k \<in> set (map fst fs). below q k \<and> k \<noteq> q"
      unfolding is_dir_def by blast
    then show ?thesis
    proof cases
      case 1
      then show ?thesis by (simp add: is_dir_def)
    next
      case dir: 2
      have "map_of fs1 q = Some Directory"
      proof (cases "q = ?loc")
        case True
        with dir have "is_dir fs ?loc" by (simp add: is_dir_def)
        with 2(2) have "snd m = Directory" by blast
        with 2(1) True show ?thesis by (simp add: map_of_put)
      next
        case False
        with 2(1) dir show ?thesis by (simp add: map_of_put)
      qed
      then show ?thesis by (simp add: is_dir_def)
    next
      case 3
      then obtain k where "k \<in> set (map fst fs)" "below q k" "k \<noteq> q" by blast
      then have "k \<in> set (map fst fs1)" "below q k \<and> k \<noteq> q"
        using 2(1) by (simp_all add: keys_put)
      then show ?thesis unfolding is_dir_def by blast
    qed
  qed
qed

lemma extract_member_dir:
  assumes "extract_member fs target m = Inr fs1" and "snd m = Directory"
  shows "is_dir fs1 (target @ member_names (fst m))"
  using extract_member_cases [OF assms(1)] assms(2)
  by (auto simp: map_of_put is_dir_def)

lemma extractall_Cons:
  assumes "extractall fs (m # ms) target = (fs', Inr u)"
  obtains fs1 where "extract_member fs target m = Inr fs1"
    and "extractall fs1 ms target = (fs', Inr u)"
  using assms by (cases "extract_member fs target m") simp_all

lemma extractall_other:
  "extractall fs ms target = (fs', Inr u) \<Longrightarrow>
   q \<notin> (\<lambda>m. target @ member_names (fst m)) ` set ms \<Longrightarrow> map_of fs' q = map_of fs q"
proof (induction ms arbitrary: fs)
  case Nil
  then show ?case by simp
next
  case (Cons m ms)
  from Cons.prems(1) obtain fs1 where a: "extract_member fs target m = Inr fs1"
    and b: "extractall fs1 ms target = (fs', Inr u)"
    by (rule extractall_Cons)
  have "map_of fs' q = map_of fs1 q"
    using Cons.IH [OF b] Cons.prems(2) by simp
  moreover have "map_of fs1 q = map_of fs q"
    using a Cons.prems(2) by (intro extract_member_other) auto
  ultimately show ?case by simp
qed

lemma extractall_is_dir:
  "extractall fs ms target = (fs', Inr u) \<Longrightarrow> is_dir fs q \<Longrightarrow> is_dir fs' q"
proof (induction ms arbitrary: fs)
  case Nil
  then show ?case by simp
next
  case (Cons m ms)
  from Cons.prems(1) obtain fs1 where a: "extract_member fs target m = Inr fs1"
    and b: "extractall fs1 ms target = (fs', Inr u)"
    by (rule extractall_Cons)
  show ?case
    using Cons.IH [OF b] extract_member_is_dir [OF a Cons.prems(2)] by simp
qed

lemma extractall_members:
  "extractall fs ms target = (fs', Inr u) \<Longrightarrow>
   distinct (map (\<lambda>m. member_names (fst m)) ms) \<Longrightarrow> m \<in> set ms \<Longrightarrow>
   (if snd m = Directory then is_dir fs' (target @ member_names (fst m))
    else map_of fs' (target @ member_names (fst m)) = Some (snd m))"
proof (induction ms arbitrary: fs)
  case Nil
  then show ?case by simp
next
  case (Cons x ms)
  from Cons.prems(1) obtain fs1 where a: "extract_member fs target x = Inr fs1"
    and b: "extractall fs1 ms target = (fs', Inr u)"
    by (rule extractall_Cons)
  show ?case
  proof (cases "m = x")
    case True
    show ?thesis
    proof (cases "snd m = Directory")
      case dir: True
      have "is_dir fs1 (target @ member_names (fst m))"
        using a dir True by (simp add: extract_member_dir)
      then have "is_dir fs' (target @ member_names (fst m))"
        by (rule extractall_is_dir [OF b])
      with dir show ?thesis by simp
    next
      case False
      have "target @ member_names (fst x) \<notin> (\<lambda>m. target @ member_names (fst m)) ` set ms"
        using Cons.prems(2) by auto
      then have "map_of fs' (target @ member_names (fst x)) = map_of fs1 (target @ member_names (fst x))"
        by (rule extractall_other [OF b])
      also have "\<dots> = Some (snd x)"
        using a False True by (simp add: extract_member_file)
      finally show ?thesis using False True by simp
    qed
  next
    case False
    with Cons.prems(3) have "m \<in> set ms" by simp
    moreover have "distinct (map (\<lambda>m. member_names (fst m)) ms)"
      using Cons.prems(2) by simp
    ultimately show ?thesis
      using Cons.IH [OF b] by blast
  qed
qed

text \<open>
  Claim C7 has the archive extracted into the directory named after the archive, below
  the storing path. With the archive \<open>/data/set.zip\<close> holding the member
  \<open>summary.csv\<close> and the storing path \<open>/tmp\<close>, the constructor leaves the file at
  \<open>/tmp/summary.csv\<close>, and \<open>/tmp/set\<close> does not exist.
\<close>

theorem extraction_not_under_dataset_path:
  "read_file (fst (Dataset_init flat_fs id ''/data/set.zip'' ''/tmp'' False False))
      ''/tmp/summary.csv'' = Inr (Csv example_table)
   \<and> \<not> path_exists (fst (Dataset_init flat_fs id ''/data/set.zip'' ''/tmp'' False False))
         ''/tmp/set''"
  by code_simp

text \<open>
  Claim C7, amended. The constructor extracts the archive at the storing path: when the
  extraction succeeds, each member is found at the storing path followed by the names of
  its stored path (members that go to different places), so below the directory named
  after the archive only when its stored path starts with that name. The extraction is
  skipped when the storing path joined with the base name of the archive without its
  extension exists, unless \<open>force_decompress\<close> is set; otherwise it is performed.
\<close>

theorem constructor_extracts_at_storing_path:
  "(\<not> force_decompress \<and> path_exists fs (join storing_path' (fst (splitext (basename archive'))))
      \<longrightarrow> fst (Dataset_init fs sample archive' storing_path' force_decompress shuffle) = fs)
   \<and> (force_decompress \<or> \<not> path_exists fs (join storing_path' (fst (splitext (basename archive'))))
      \<longrightarrow> fst (Dataset_init fs sample archive' storing_path' force_decompress shuffle)
            = fst (decompress fs archive' storing_path'))
   \<and> (open_zip fs archive' = Inr ms \<and> decompress fs archive' storing_path' = (fs', Inr ())
        \<and> distinct (map (\<lambda>m. member_names (fst m)) ms)
      \<longrightarrow> (\<forall>m \<in> set ms.
             if snd m = Directory
             then is_dir fs' (resolve storing_path' @ member_names (fst m))
             else map_of fs' (resolve storing_path' @ member_names (fst m)) = Some (snd m)))"
proof -
  have skip: "fst (Dataset_init fs sample archive' storing_path' force_decompress shuffle) = fs"
    if "\<not> force_decompress \<and> path_exists fs (join storing_path' (fst (splitext (basename archive'))))"
    using that by (simp add: fst_Dataset_init)
  have run: "fst (Dataset_init fs sample archive' storing_path' force_decompress shuffle)
            = fst (decompress fs archive' storing_path')"
    if "force_decompress \<or> \<not> path_exists fs (join storing_path' (fst (splitext (basename archive'))))"
    using that by (simp add: fst_Dataset_init)
  have all: "\<forall>m \<in> set ms.
             if snd m = Directory
             then is_dir fs' (resolve storing_path' @ member_names (fst m))
             else map_of fs' (resolve storing_path' @ member_names (fst m)) = Some (snd m)"
    if "open_zip fs archive' = Inr ms \<and> decompress fs archive' storing_path' = (fs', Inr ())
        \<and> distinct (map (\<lambda>m. member_names (fst m)) ms)"
  proof
    fix m
    assume m: "m \<in> set ms"
    from that have "extractall fs ms (resolve storing_path') = (fs', Inr ())"
      by (auto simp: decompress_def)
    then show "if snd m = Directory
               then is_dir fs' (resolve storing_path' @ member_names (fst m))
               else map_of fs' (resolve storing_path' @ member_names (fst m)) = Some (snd m)"
      using that m by (intro extractall_members) simp_all
  qed
  show ?thesis
    using skip run all by blast
qed

theorem constructor_extracts_at_storing_path_witness:
  "\<not> path_exists flat_fs (join ''/tmp'' (fst (splitext (basename ''/data/set.zip''))))
   \<and> fst (Dataset_init flat_fs id ''/data/set.zip'' ''/tmp'' False False)
       = fst (decompress flat_fs ''/data/set.zip'' ''/tmp'')
   \<and> map_of (fst (decompress flat_fs ''/data/set.zip'' ''/tmp''))
        (resolve ''/tmp'' @ member_names ''summary.csv'') = Some (Csv example_table)"
proof -
  have h1: "\<not> path_exists flat_fs (join ''/tmp'' (fst (splitext (basename ''/data/set.zip''))))"
    by code_simp
  have h2: "open_zip flat_fs ''/data/set.zip'' = Inr [(''summary.csv'', Csv example_table)]"
    by code_simp
  have h3: "decompress flat_fs ''/data/set.zip'' ''/tmp''
              = (fst (decompress flat_fs ''/data/set.zip'' ''/tmp''), Inr ())"
    by code_simp
  have h4: "distinct (map (\<lambda>m. member_names (fst m)) [(''summary.csv'', Csv example_table)])"
    by simp
  have m: "(''summary.csv'', Csv example_table) \<in> set [(''summary.csv'', Csv example_table)]"
    by simp
  note t = constructor_extracts_at_storing_path
             [of False flat_fs "''/tmp''" "''/data/set.zip''" id False
                 "[(''summary.csv'', Csv example_table)]"
                 "fst (decompress flat_fs ''/data/set.zip'' ''/tmp'')"]
  have a: "fst (Dataset_init flat_fs id ''/data/set.zip'' ''/tmp'' False False)
             = fst (decompress flat_fs ''/data/set.zip'' ''/tmp'')"
    using t h1 by blast
  have "\<forall>m \<in> set [(''summary.csv'', Csv example_table)].
             if snd m = Directory
             then is_dir (fst (decompress flat_fs ''/data/set.zip'' ''/tmp''))
                    (resolve ''/tmp'' @ member_names (fst m))
             else map_of (fst (decompress flat_fs ''/data/set.zip'' ''/tmp''))
                    (resolve ''/tmp'' @ member_names (fst m)) = Some (snd m)"
    using t h2 h3 h4 by blast
  then have b: "map_of (fst (decompress flat_fs ''/data/set.zip'' ''/tmp''))
        (resolve ''/tmp'' @ member_names ''summary.csv'') = Some (Csv example_table)"
    by simp
  show ?thesis
    using h1 a b by blast
qed

subsection \<open>Saving\<close>

text \<open>
  Claim C1 (a round trip of \<open>save\<close> and the constructor gives the same summary), at
  the example. \<open>save\<close> succeeds, and the archive it writes holds the images, the
  fibres and the profiles, at the top level of the archive, and no \<open>summary.csv\<close>: the
  constructor, given this archive, extracts it and raises FileNotFoundError when it reads
  \<open>/tmp/copy/summary.csv\<close>, so there is no summary to compare.
\<close>

theorem save_then_reload_fails:
  "snd (save id ''-Profiles #'' extracted_fs example ''/out/copy.zip'') = Inr ()
   \<and> map fst (projr (open_zip (fst (save id ''-Profiles #'' extracted_fs example ''/out/copy.zip''))
                        ''/out/copy.zip''))
       = [''images/e-A.tif'', ''fibers/e-A.zip'', ''images/e-B.tif'', ''fibers/e-B.zip'',
          ''profiles/e-A-Profiles #1.csv'', ''profiles/e-A-Profiles #2.csv'',
          ''profiles/e-B-Profiles #1.csv'']
   \<and> snd (Dataset_init (fst (save id ''-Profiles #'' extracted_fs example ''/out/copy.zip''))
            id ''/out/copy.zip'' ''/tmp'' False False)
       = Inl FileNotFoundError"
  by code_simp

end
